theory Spec2Isabelle
  imports Main "HOL-Library.Sublist" "HOL-Library.Word"
begin


section \<open>Python strings\<close>

text \<open>
  A Python \<open>str\<close> is a sequence of Unicode code points; it is modelled as a list of
  natural numbers. \<open>py\<close> turns an ASCII literal into such a list.
\<close>

type_synonym pystr = "nat list"

definition py :: "string \<Rightarrow> pystr" where
  "py s = map of_char s"

abbreviation LF :: nat where
  "LF \<equiv> 10"

text \<open>
  \<open>str.strip()\<close> without argument removes the characters for which \<open>str.isspace\<close>
  holds: the ASCII controls 9..13 and 28..31, the space, NEL, NBSP and the Unicode
  space separators.
\<close>

definition is_space :: "nat \<Rightarrow> bool" where
  "is_space c =
     ((9 \<le> c \<and> c \<le> 13) \<or> (28 \<le> c \<and> c \<le> 32) \<or> c = 133 \<or> c = 160 \<or> c = 5760
      \<or> (8192 \<le> c \<and> c \<le> 8202) \<or> c = 8232 \<or> c = 8233 \<or> c = 8239 \<or> c = 8287
      \<or> c = 12288)"

definition py_strip :: "pystr \<Rightarrow> pystr" where
  "py_strip s = rev (dropWhile is_space (rev (dropWhile is_space s)))"

text \<open>\<open>find_sub sub s\<close> is the lowest offset at which \<open>sub\<close> occurs in \<open>s\<close>.\<close>

fun find_sub :: "pystr \<Rightarrow> pystr \<Rightarrow> nat option" where
  "find_sub sub [] = (if sub = [] then Some 0 else None)"
| "find_sub sub (c # cs) =
     (if prefix sub (c # cs) then Some 0 else map_option Suc (find_sub sub cs))"

text \<open>The operator \<open>sub in s\<close>.\<close>

definition py_contains :: "pystr \<Rightarrow> pystr \<Rightarrow> bool" where
  "py_contains sub s = (find_sub sub s \<noteq> None)"

text \<open>The slice \<open>s[a:b]\<close> for non-negative bounds.\<close>

definition py_slice :: "pystr \<Rightarrow> nat \<Rightarrow> nat \<Rightarrow> pystr" where
  "py_slice s a b = drop a (take b s)"

section \<open>Errors\<close>

text \<open>
  The exceptions that can reach the handler at the bottom of the script. The two raised
  by the extraction carry their message; the others carry the text supplied by the
  library or the operating system. \<open>ParserRejectedMarkup\<close> is the parser's
  exception for markup it cannot handle.
\<close>

datatype error =
    RuntimeError pystr
  | ValueError pystr
  | RequestException pystr
  | HTTPError nat
  | OSError pystr
  | UnicodeEncodeError
  | UnicodeDecodeError
  | ParserRejectedMarkup pystr

text \<open>\<open>s.index(sub, start)\<close>: the lowest offset from \<open>start\<close> on, or \<open>ValueError\<close>.\<close>

definition py_index :: "pystr \<Rightarrow> pystr \<Rightarrow> nat \<Rightarrow> error + nat" where
  "py_index s sub start =
     (if length s < start then Inl (ValueError (py ''substring not found''))
      else case find_sub sub (drop start s) of
             None \<Rightarrow> Inl (ValueError (py ''substring not found''))
           | Some i \<Rightarrow> Inr (start + i))"

section \<open>The two substitutions\<close>

text \<open>
  \<open>re.sub\<close> scans from the left; at each position it tries the pattern, greedily, and
  on a match emits the replacement and continues after the match, otherwise it copies one
  character. Neither pattern matches the empty string.

  \<open>match_hws_nl s\<close> tries \<^verbatim>\<open>[ \t]+\n\<close> at the head of \<open>s\<close> and returns what follows the
  match: the longest run of spaces and tabs must be non-empty and be followed by a line
  feed (a shorter run is followed by a space or a tab, so backtracking never helps).
\<close>

definition is_hws :: "nat \<Rightarrow> bool" where
  "is_hws c = (c = 32 \<or> c = 9)"

definition match_hws_nl :: "pystr \<Rightarrow> pystr option" where
  "match_hws_nl s =
     (case dropWhile is_hws s of
        d # ds \<Rightarrow> if takeWhile is_hws s \<noteq> [] \<and> d = LF then Some ds else None
      | [] \<Rightarrow> None)"

function re_sub_hws_nl :: "pystr \<Rightarrow> pystr" where
  "re_sub_hws_nl [] = []"
| "re_sub_hws_nl (c # cs) =
     (case match_hws_nl (c # cs) of
        Some r \<Rightarrow> LF # re_sub_hws_nl r
      | None \<Rightarrow> c # re_sub_hws_nl cs)"
  by pat_completeness auto
termination
proof (relation "measure length", goal_cases)
  case 1
  show ?case by simp
next
  case (2 c cs)
  show ?case by simp
next
  case (3 c cs r)
  have "length (dropWhile is_hws (c # cs)) \<le> length (c # cs)"
    by (rule length_dropWhile_le)
  with 3 show ?case
    by (auto simp: match_hws_nl_def split: list.splits if_splits)
qed

text \<open>
  \<open>match_nl3 s\<close> tries \<^verbatim>\<open>\n{3,}\<close> at the head of \<open>s\<close>: the run of line feeds there must
  have length three or more, and the greedy match takes all of it.
\<close>

definition match_nl3 :: "pystr \<Rightarrow> pystr option" where
  "match_nl3 s =
     (if 3 \<le> length (takeWhile (\<lambda>c. c = LF) s)
      then Some (dropWhile (\<lambda>c. c = LF) s) else None)"

function re_sub_nl3 :: "pystr \<Rightarrow> pystr" where
  "re_sub_nl3 [] = []"
| "re_sub_nl3 (c # cs) =
     (case match_nl3 (c # cs) of
        Some r \<Rightarrow> LF # LF # re_sub_nl3 r
      | None \<Rightarrow> c # re_sub_nl3 cs)"
  by pat_completeness auto
termination
proof (relation "measure length", goal_cases)
  case 1
  show ?case by simp
next
  case (2 c cs)
  show ?case by simp
next
  case (3 c cs r)
  have "length (takeWhile (\<lambda>x. x = LF) (c # cs)) + length (dropWhile (\<lambda>x. x = LF) (c # cs))
          = length (c # cs)"
    by (metis length_append takeWhile_dropWhile_id)
  with 3 show ?case
    by (auto simp: match_nl3_def split: if_splits)
qed

section \<open>The extractor\<close>

definition URL :: pystr where
  "URL = py ''https://uni-freiburg.de/en/studies/during-your-studies/apis/''"

definition STATE_DIR :: pystr where
  "STATE_DIR = py ''.state''"

definition HASH_FILE :: pystr where
  "HASH_FILE = py ''.state/current_social_events.sha256''"

definition TEXT_FILE :: pystr where
  "TEXT_FILE = py ''.state/current_social_events.txt''"

definition START_MARKER :: pystr where
  "START_MARKER = py ''Current social events''"

definition END_MARKER :: pystr where
  "END_MARKER = py ''Past events''"

definition markers_message :: pystr where
  "markers_message =
     py ''Could not find markers. Needed 'Current social events' and 'Past events'.''"

text \<open>
  \<open>BeautifulSoup(html, "html.parser").get_text("\n", strip=True)\<close> is library code:
  parsing and flattening are the parameter \<open>get_text\<close>, which returns the flattened
  text or raises (the parser rejects some markup); an exception of the library leaves the
  extraction as it is.
\<close>

definition extract_current_social_events :: "(pystr \<Rightarrow> error + pystr) \<Rightarrow> pystr \<Rightarrow> error + pystr" where
  "extract_current_social_events get_text html =
     (case get_text html of
        Inl e \<Rightarrow> Inl e
      | Inr full_text \<Rightarrow>
          if \<not> py_contains START_MARKER full_text \<or> \<not> py_contains END_MARKER full_text
          then Inl (RuntimeError markers_message)
          else
            (case py_index full_text START_MARKER 0 of
               Inl e \<Rightarrow> Inl e
             | Inr i \<Rightarrow>
                 (let start = i + length START_MARKER in
                  (case py_index full_text END_MARKER start of
                     Inl e \<Rightarrow> Inl e
                   | Inr end \<Rightarrow>
                       (let block = py_strip (py_slice full_text start end);
                            block = re_sub_hws_nl block;
                            block = py_strip (re_sub_nl3 block)
                        in Inr block)))))"

section \<open>UTF-8 and the digest\<close>

text \<open>
  \<open>s.encode("utf-8")\<close> fails on a lone surrogate. The hash function itself is
  \<open>hashlib\<close>'s: it is the parameter \<open>H\<close>, from bytes to bytes. \<open>hexdigest\<close> renders
  each byte as two lowercase hexadecimal digits.
\<close>

type_synonym byte = "8 word"

definition is_surrogate :: "nat \<Rightarrow> bool" where
  "is_surrogate c = (55296 \<le> c \<and> c \<le> 57343)"

definition utf8_char :: "nat \<Rightarrow> byte list" where
  "utf8_char c =
     (if c < 128 then [of_nat c]
      else if c < 2048 then [of_nat (192 + c div 64), of_nat (128 + c mod 64)]
      else if c < 65536 then
        [of_nat (224 + c div 4096), of_nat (128 + c div 64 mod 64), of_nat (128 + c mod 64)]
      else
        [of_nat (240 + c div 262144), of_nat (128 + c div 4096 mod 64),
         of_nat (128 + c div 64 mod 64), of_nat (128 + c mod 64)])"

definition utf8 :: "pystr \<Rightarrow> byte list" where
  "utf8 s = concat (map utf8_char s)"

definition encode_utf8 :: "pystr \<Rightarrow> error + byte list" where
  "encode_utf8 s =
     (if list_ex is_surrogate s then Inl UnicodeEncodeError
      else Inr (utf8 s))"

text \<open>
  Reading a file as text decodes its bytes strictly: a byte sequence that is not
  well-formed UTF-8 (a stray continuation byte, a truncated or overlong sequence, an
  encoded surrogate, a code point above U+10FFFF) has no decoding, and the read raises
  \<open>UnicodeDecodeError\<close>.
\<close>

definition is_cont :: "byte \<Rightarrow> bool" where
  "is_cont b = (128 \<le> unat b \<and> unat b < 192)"

text \<open>
  The first byte of a sequence gives its length (0: not a first byte) and its payload;
  each continuation byte adds six bits. The shortest encoding is the only one accepted:
  a sequence of two, three, four bytes must give a code point from 128, 2048, 65536 on.
\<close>

definition seq_len :: "byte \<Rightarrow> nat" where
  "seq_len b =
     (if unat b < 128 then 1 else if unat b < 192 then 0 else if unat b < 224 then 2
      else if unat b < 240 then 3 else if unat b < 248 then 4 else 0)"

definition lead_bits :: "byte \<Rightarrow> nat" where
  "lead_bits b =
     (if unat b < 128 then unat b else if unat b < 224 then unat b - 192
      else if unat b < 240 then unat b - 224 else unat b - 240)"

definition least_code :: "nat \<Rightarrow> nat" where
  "least_code k = (if k = 1 then 0 else if k = 2 then 128 else if k = 3 then 2048 else 65536)"

definition decode_char :: "byte \<Rightarrow> byte list \<Rightarrow> nat option" where
  "decode_char b cs =
     (let c = foldl (\<lambda>a x. a * 64 + (unat x - 128)) (lead_bits b) cs in
      if list_all is_cont cs \<and> least_code (seq_len b) \<le> c \<and> c \<le> 1114111 \<and> \<not> is_surrogate c
      then Some c else None)"

function decode_utf8 :: "byte list \<Rightarrow> pystr option" where
  "decode_utf8 [] = Some []"
| "decode_utf8 (b # bs) =
     (if seq_len b = 0 \<or> length bs < seq_len b - 1 then None
      else case decode_char b (take (seq_len b - 1) bs) of
             None \<Rightarrow> None
           | Some c \<Rightarrow> map_option ((#) c) (decode_utf8 (drop (seq_len b - 1) bs)))"
  by pat_completeness auto
termination
  by (relation "measure length") simp_all

text \<open>
  A file opened for reading as text has its line ends translated: a carriage return
  followed by a line feed, and a carriage return alone, are read as one line feed.
\<close>

fun universal_newlines :: "pystr \<Rightarrow> pystr" where
  "universal_newlines [] = []"
| "universal_newlines [c] = [if c = 13 then LF else c]"
| "universal_newlines (c # d # cs) =
     (if c = 13 \<and> d = LF then LF # universal_newlines cs
      else if c = 13 then LF # universal_newlines (d # cs)
      else c # universal_newlines (d # cs))"

definition hex_digit :: "nat \<Rightarrow> nat" where
  "hex_digit n = (if n < 10 then 48 + n else 87 + n)"

definition hexdigest :: "byte list \<Rightarrow> pystr" where
  "hexdigest bs = concat (map (\<lambda>b. [hex_digit (unat b div 16), hex_digit (unat b mod 16)]) bs)"

definition sha256 :: "(byte list \<Rightarrow> byte list) \<Rightarrow> pystr \<Rightarrow> error + pystr" where
  "sha256 H s =
     (case encode_utf8 s of
        Inl e \<Rightarrow> Inl e
      | Inr bs \<Rightarrow> Inr (hexdigest (H bs)))"

section \<open>The world: network, files, standard output, and what the run does to them\<close>

text \<open>
  The run acts on a world: the answer of the network to a GET, the process environment,
  the files, and what the operating system answers to each operation.

  The files are one map from path to content, in bytes. A path stands for the file it
  names: two spellings of one file (a relative and an absolute path, a symbolic link)
  are one path here, and different paths are different files. The two state paths are
  two files; the file that \<open>GITHUB_OUTPUT\<close> names may be any file, also one of the
  two state files. Text is written as on a POSIX system, where a line feed is written
  as it is.

  \<open>refuses\<close> says for which operation on which path the operating system raises
  \<open>OSError\<close> before anything is done: a directory that cannot be created, a file
  that cannot be examined, opened or read. \<open>cut_short\<close> says which write fails
  after the file has been opened, and how many bytes reach the file before it does.
  \<open>stdout_raises\<close> says which call of \<open>print\<close> raises (a standard output that is
  written through at once and does not take the line), and \<open>flush_fails\<close> whether the
  flush of standard output at the shutdown of the interpreter fails (a buffered standard
  output that does not take what was printed). The four are independent: which of them
  go together depends on how standard output is buffered.

  Every effect is recorded, in order, in \<open>trace\<close>; \<open>Print\<close> and \<open>PrintError\<close>
  are calls of \<open>print\<close> that returned (the line has been handed to standard output,
  and is on the device once it has been flushed), \<open>Traceback\<close> is the interpreter's
  report of an uncaught exception on standard error.
\<close>

record response =
  status_code :: nat
  resp_text :: pystr

datatype io_op = Mkdir | StatOp | ReadOp | WriteOp | AppendOp

datatype event =
    EvMkdir pystr
  | EvGet pystr
  | EvExists pystr
  | EvRead pystr
  | EvWrite pystr pystr
  | EvAppend pystr pystr
  | Print pystr
  | PrintError error
  | Traceback error

record world =
  http_get :: "pystr \<Rightarrow> error + response"
  refuses :: "io_op \<Rightarrow> pystr \<Rightarrow> pystr option"
  cut_short :: "pystr \<Rightarrow> byte list \<Rightarrow> (pystr \<times> nat) option"
  stdout_raises :: "event \<Rightarrow> error option"
  flush_fails :: bool
  environ :: "pystr \<rightharpoonup> pystr"
  files :: "pystr \<rightharpoonup> byte list"
  trace :: "event list"

definition log :: "event \<Rightarrow> world \<Rightarrow> world" where
  "log e w = w\<lparr>trace := trace w @ [e]\<rparr>"

text \<open>A step either raises or returns a value, and leaves a world behind in both cases.\<close>

type_synonym 'a step = "world \<Rightarrow> (error + 'a) \<times> world"

definition and_then :: "'a step \<Rightarrow> ('a \<Rightarrow> 'b step) \<Rightarrow> 'b step" where
  "and_then m f w =
     (case m w of
        (Inl e, w') \<Rightarrow> (Inl e, w')
      | (Inr x, w') \<Rightarrow> f x w')"

definition pure_step :: "error + 'a \<Rightarrow> 'a step" where
  "pure_step r w = (r, w)"

definition raise_for_status :: "response \<Rightarrow> error + unit" where
  "raise_for_status r =
     (if 400 \<le> status_code r \<and> status_code r < 600 then Inl (HTTPError (status_code r))
      else Inr ())"

definition fetch_html :: "pystr \<Rightarrow> pystr step" where
  "fetch_html url w =
     (let w' = log (EvGet url) w in
      case http_get w url of
        Inl e \<Rightarrow> (Inl e, w')
      | Inr r \<Rightarrow>
          (case raise_for_status r of
             Inl e \<Rightarrow> (Inl e, w')
           | Inr _ \<Rightarrow> (Inr (resp_text r), w')))"

text \<open>
  \<open>path.read_text(encoding="utf-8").strip() if path.exists() else None\<close>: the file
  is examined; when it exists it is opened and read, its bytes are decoded, its line
  ends translated, and the text is stripped.
\<close>

definition read_text :: "pystr \<Rightarrow> pystr option step" where
  "read_text path w =
     (let w' = log (EvExists path) w in
      case refuses w StatOp path of
        Some msg \<Rightarrow> (Inl (OSError msg), w')
      | None \<Rightarrow>
          (case files w path of
             None \<Rightarrow> (Inr None, w')
           | Some bs \<Rightarrow>
               (let w'' = log (EvRead path) w' in
                case refuses w ReadOp path of
                  Some msg \<Rightarrow> (Inl (OSError msg), w'')
                | None \<Rightarrow>
                    (case decode_utf8 bs of
                       None \<Rightarrow> (Inl UnicodeDecodeError, w'')
                     | Some s \<Rightarrow> (Inr (Some (py_strip (universal_newlines s))), w'')))))"

text \<open>
  \<open>path.write_text(content, encoding="utf-8")\<close> opens the file for writing, which
  creates it or empties it, then encodes the content and writes it. When the file cannot
  be opened it stays as it was; when the content cannot be encoded the file is left
  empty; when the write is cut short the file holds the bytes that reached it.
\<close>

definition write_text :: "pystr \<Rightarrow> pystr \<Rightarrow> unit step" where
  "write_text path content w =
     (let w' = log (EvWrite path content) w in
      case refuses w WriteOp path of
        Some msg \<Rightarrow> (Inl (OSError msg), w')
      | None \<Rightarrow>
          (case encode_utf8 content of
             Inl e \<Rightarrow> (Inl e, w'\<lparr>files := (files w')(path \<mapsto> [])\<rparr>)
           | Inr bs \<Rightarrow>
               (case cut_short w path bs of
                  Some (msg, k) \<Rightarrow>
                    (Inl (OSError msg), w'\<lparr>files := (files w')(path \<mapsto> take k bs)\<rparr>)
                | None \<Rightarrow> (Inr (), w'\<lparr>files := (files w')(path \<mapsto> bs)\<rparr>))))"

definition output_entry :: "pystr \<Rightarrow> pystr \<Rightarrow> pystr" where
  "output_entry name val = name @ py ''<<__EOF__'' @ [LF] @ val @ [LF] @ py ''__EOF__'' @ [LF]"

text \<open>
  \<open>set_github_output\<close> does nothing when \<open>GITHUB_OUTPUT\<close> is unset or empty.
  Otherwise it opens the file of that name for appending, which creates it when it does
  not exist, and writes the entry after what the file holds.
\<close>

definition set_github_output :: "pystr \<Rightarrow> pystr \<Rightarrow> unit step" where
  "set_github_output name val w =
     (case environ w (py ''GITHUB_OUTPUT'') of
        None \<Rightarrow> (Inr (), w)
      | Some out_path \<Rightarrow>
          if out_path = [] then (Inr (), w)
          else
            (let w' = log (EvAppend out_path (output_entry name val)) w;
                 old = (case files w' out_path of None \<Rightarrow> [] | Some bs \<Rightarrow> bs) in
             case refuses w AppendOp out_path of
               Some msg \<Rightarrow> (Inl (OSError msg), w')
             | None \<Rightarrow>
                 (case encode_utf8 (output_entry name val) of
                    Inl e \<Rightarrow> (Inl e, w'\<lparr>files := (files w')(out_path \<mapsto> old)\<rparr>)
                  | Inr bs \<Rightarrow>
                      (case cut_short w out_path bs of
                         Some (msg, k) \<Rightarrow>
                           (Inl (OSError msg),
                            w'\<lparr>files := (files w')(out_path \<mapsto> old @ take k bs)\<rparr>)
                       | None \<Rightarrow>
                           (Inr (), w'\<lparr>files := (files w')(out_path \<mapsto> old @ bs)\<rparr>)))))"

text \<open>
  \<open>print\<close> hands a line to standard output; the call either returns or raises.
  \<open>print_error\<close> is the handler's \<^verbatim>\<open>print(f"ERROR: {e}")\<close>.
\<close>

definition print :: "pystr \<Rightarrow> unit step" where
  "print line w =
     (case stdout_raises w (Print line) of
        Some e \<Rightarrow> (Inl e, w)
      | None \<Rightarrow> (Inr (), log (Print line) w))"

definition print_error :: "error \<Rightarrow> unit step" where
  "print_error e w =
     (case stdout_raises w (PrintError e) of
        Some e' \<Rightarrow> (Inl e', w)
      | None \<Rightarrow> (Inr (), log (PrintError e) w))"

definition main :: "(pystr \<Rightarrow> error + pystr) \<Rightarrow> (byte list \<Rightarrow> byte list) \<Rightarrow> int step" where
  "main get_text H =
     and_then (fetch_html URL) (\<lambda>html.
     and_then (pure_step (extract_current_social_events get_text html)) (\<lambda>block.
     and_then (pure_step (sha256 H block)) (\<lambda>h.
     and_then (read_text HASH_FILE) (\<lambda>prev.
     let changed = (prev \<noteq> Some h) in
     and_then (write_text HASH_FILE h) (\<lambda>_.
     and_then (write_text TEXT_FILE block) (\<lambda>_.
     and_then (set_github_output (py ''changed'') (if changed then py ''true'' else py ''false'')) (\<lambda>_.
     and_then (set_github_output (py ''url'') URL) (\<lambda>_.
     and_then (set_github_output (py ''content'') block) (\<lambda>_.
     if changed
     then and_then (print (py ''CHANGED: Current social events updated.'')) (\<lambda>_.
          pure_step (Inr 0))
     else and_then (print (py ''No change.'')) (\<lambda>_.
          pure_step (Inr 0)))))))))))"

text \<open>
  The script: the state directory is created when the module is loaded, outside the
  \<open>try\<close>, so a failure there is not caught. Then \<open>main\<close> runs inside the
  \<open>try\<close>: its result goes to \<open>sys.exit\<close>; an exception is printed by the handler,
  which exits with 1, and when that \<open>print\<close> raises, the new exception is uncaught.
  An uncaught exception makes the interpreter write a traceback and exit with 1.

  \<open>at_exit\<close> is the shutdown of the interpreter: it flushes standard output, and when
  that fails the exit status is 120, whatever was passed to \<open>sys.exit\<close>. The flush
  can fail only when something was handed to standard output, which is the case in every
  run that gets past the creation of the state directory.
\<close>

definition mkdir_exist_ok :: "pystr \<Rightarrow> unit step" where
  "mkdir_exist_ok path w =
     (let w' = log (EvMkdir path) w in
      case refuses w Mkdir path of
        Some msg \<Rightarrow> (Inl (OSError msg), w')
      | None \<Rightarrow> (Inr (), w'))"

definition at_exit :: "int \<Rightarrow> world \<Rightarrow> int" where
  "at_exit code w = (if flush_fails w then 120 else code)"

definition script :: "(pystr \<Rightarrow> error + pystr) \<Rightarrow> (byte list \<Rightarrow> byte list) \<Rightarrow> world \<Rightarrow> int \<times> world" where
  "script get_text H w =
     (case mkdir_exist_ok STATE_DIR w of
        (Inl e, w1) \<Rightarrow> (1, log (Traceback e) w1)
      | (Inr _, w1) \<Rightarrow>
          (case main get_text H w1 of
             (Inr code, w2) \<Rightarrow> (at_exit code w2, w2)
           | (Inl e, w2) \<Rightarrow>
               (case print_error e w2 of
                  (Inr _, w3) \<Rightarrow> (at_exit 1 w3, w3)
                | (Inl e', w3) \<Rightarrow> (at_exit 1 w3, log (Traceback e') w3))))"

text \<open>
  What the handler leaves in the trace: the line it printed when \<open>print\<close> returned,
  the traceback of the new exception when \<open>print\<close> raised.
\<close>

definition handler_event :: "world \<Rightarrow> error \<Rightarrow> event" where
  "handler_event w e =
     (case stdout_raises w (PrintError e) of
        None \<Rightarrow> PrintError e
      | Some e' \<Rightarrow> Traceback e')"

text \<open>
  What a run shows: its exit code, the events it adds to the trace, and the files it
  leaves.
\<close>

definition exit_code :: "(pystr \<Rightarrow> error + pystr) \<Rightarrow> (byte list \<Rightarrow> byte list) \<Rightarrow> world \<Rightarrow> int" where
  "exit_code get_text H w = fst (script get_text H w)"

definition run_events :: "(pystr \<Rightarrow> error + pystr) \<Rightarrow> (byte list \<Rightarrow> byte list) \<Rightarrow> world \<Rightarrow> event list" where
  "run_events get_text H w = drop (length (trace w)) (trace (snd (script get_text H w)))"

definition final_files :: "(pystr \<Rightarrow> error + pystr) \<Rightarrow> (byte list \<Rightarrow> byte list) \<Rightarrow> world \<Rightarrow> (pystr \<rightharpoonup> byte list)" where
  "final_files get_text H w = files (snd (script get_text H w))"

fun is_read_event :: "event \<Rightarrow> bool" where
  "is_read_event (EvExists p) = True"
| "is_read_event (EvRead p) = True"
| "is_read_event _ = False"

fun is_write_event :: "event \<Rightarrow> bool" where
  "is_write_event (EvWrite p c) = True"
| "is_write_event _ = False"

text \<open>
  The file the outputs go to: the value of \<open>GITHUB_OUTPUT\<close>, when it is set and not
  empty.
\<close>

definition output_path :: "world \<Rightarrow> pystr option" where
  "output_path w =
     (case environ w (py ''GITHUB_OUTPUT'') of
        None \<Rightarrow> None
      | Some p \<Rightarrow> if p = [] then None else Some p)"

text \<open>
  Names for the pieces of a run's trace: the events of reading the digest file, the digest
  that is read from it, the three entries sent to the output file, and the line printed
  last.
\<close>

definition digest_read_events :: "world \<Rightarrow> event list" where
  "digest_read_events w =
     EvExists HASH_FILE #
       (if refuses w StatOp HASH_FILE = None \<and> files w HASH_FILE \<noteq> None
        then [EvRead HASH_FILE] else [])"

definition previous_digest :: "world \<Rightarrow> pystr option" where
  "previous_digest w =
     (case files w HASH_FILE of
        None \<Rightarrow> None
      | Some bs \<Rightarrow> map_option (\<lambda>s. py_strip (universal_newlines s)) (decode_utf8 bs))"

definition output_entries :: "bool \<Rightarrow> pystr \<Rightarrow> pystr list" where
  "output_entries changed block =
     [output_entry (py ''changed'') (if changed then py ''true'' else py ''false''),
      output_entry (py ''url'') URL,
      output_entry (py ''content'') block]"

definition output_events :: "world \<Rightarrow> bool \<Rightarrow> pystr \<Rightarrow> event list" where
  "output_events w changed block =
     (case output_path w of
        None \<Rightarrow> []
      | Some p \<Rightarrow> map (EvAppend p) (output_entries changed block))"

definition report_line :: "bool \<Rightarrow> pystr" where
  "report_line changed =
     (if changed then py ''CHANGED: Current social events updated.'' else py ''No change.'')"

text \<open>
  What a file that held \<open>old\<close> (\<open>None\<close>: it did not exist) holds after
  \<open>write_text\<close>, and after \<open>set_github_output\<close> appended an entry to it, whether
  the call returned or raised; and the files after a run sent the entries \<open>es\<close>, one
  after the other, to the output file.
\<close>

definition left_by_write :: "world \<Rightarrow> pystr \<Rightarrow> pystr \<Rightarrow> byte list option \<Rightarrow> byte list option" where
  "left_by_write w path content old =
     (case refuses w WriteOp path of
        Some msg \<Rightarrow> old
      | None \<Rightarrow>
          (case encode_utf8 content of
             Inl e \<Rightarrow> Some []
           | Inr bs \<Rightarrow>
               (case cut_short w path bs of
                  Some (msg, k) \<Rightarrow> Some (take k bs)
                | None \<Rightarrow> Some bs)))"

definition left_by_append :: "world \<Rightarrow> pystr \<Rightarrow> pystr \<Rightarrow> byte list option \<Rightarrow> byte list option" where
  "left_by_append w path entry old =
     (case refuses w AppendOp path of
        Some msg \<Rightarrow> old
      | None \<Rightarrow>
          Some ((case old of None \<Rightarrow> [] | Some bs \<Rightarrow> bs) @
                (case encode_utf8 entry of
                   Inl e \<Rightarrow> []
                 | Inr bs \<Rightarrow>
                     (case cut_short w path bs of
                        Some (msg, k) \<Rightarrow> take k bs
                      | None \<Rightarrow> bs))))"

definition after_outputs :: "world \<Rightarrow> pystr list \<Rightarrow> (pystr \<rightharpoonup> byte list) \<Rightarrow> (pystr \<rightharpoonup> byte list)" where
  "after_outputs w es fs =
     (case output_path w of
        None \<Rightarrow> fs
      | Some p \<Rightarrow> fold (\<lambda>entry fs'. fs'(p := left_by_append w p entry (fs' p))) es fs)"

text \<open>
  The files after the two writes of a successful run, and the files after bytes were
  appended to one of them.
\<close>

definition state_written :: "world \<Rightarrow> pystr \<Rightarrow> pystr \<Rightarrow> (pystr \<rightharpoonup> byte list)" where
  "state_written w h block = (files w)(HASH_FILE \<mapsto> utf8 h, TEXT_FILE \<mapsto> utf8 block)"

definition appended :: "(pystr \<rightharpoonup> byte list) \<Rightarrow> pystr \<Rightarrow> byte list \<Rightarrow> (pystr \<rightharpoonup> byte list)" where
  "appended fs p bs = fs(p \<mapsto> (case fs p of None \<Rightarrow> [] | Some old \<Rightarrow> old) @ bs)"




text \<open>
  Two worlds that differ at most in what the text file holds, and a step that cannot
  tell them apart: it gives the same result in both and leaves two such worlds.
\<close>

definition differ_in_text_file :: "world \<Rightarrow> world \<Rightarrow> bool" where
  "differ_in_text_file w w' = (w' = w\<lparr>files := (files w)(TEXT_FILE := files w' TEXT_FILE)\<rparr>)"

definition blind_to_text_file :: "'a step \<Rightarrow> bool" where
  "blind_to_text_file m =
     (\<forall>w w'. differ_in_text_file w w' \<longrightarrow>
        fst (m w') = fst (m w) \<and> differ_in_text_file (snd (m w)) (snd (m w')))"

subsection \<open>A sample page and a sample world\<close>

text \<open>
  The page of the end-to-end scenario, with its flattening: one text node per element,
  stripped, joined by line feeds.
\<close>

definition sample_html :: pystr where
  "sample_html =
     py ''<div>Current social events</div><p>Concert  '' @ [LF, LF, LF, LF]
       @ py ''Friday</p><div>Past events</div>''"

definition sample_flat :: pystr where
  "sample_flat =
     START_MARKER @ [LF] @ py ''Concert  '' @ [LF, LF, LF, LF] @ py ''Friday'' @ [LF]
       @ END_MARKER"

text \<open>
  Three more pages, with their flattenings: the two markers with nothing between them,
  the same between other text, and the two markers in the wrong order.
\<close>

definition adjacent_html :: pystr where
  "adjacent_html = py ''<h2>Current social events</h2><h2>Past events</h2>''"

definition adjacent_flat :: pystr where
  "adjacent_flat = START_MARKER @ [LF] @ END_MARKER"

definition news_html :: pystr where
  "news_html =
     py ''<p>News</p><h2>Current social events</h2><h2>Past events</h2><p>Archive</p>''"

definition news_flat :: pystr where
  "news_flat = (py ''News'' @ [LF]) @ START_MARKER @ [LF] @ END_MARKER @ (LF # py ''Archive'')"

definition swapped_html :: pystr where
  "swapped_html = py ''<h2>Past events</h2><h2>Current social events</h2>''"

definition swapped_flat :: pystr where
  "swapped_flat = END_MARKER @ [LF] @ START_MARKER"

text \<open>
  \<open>sample_get_text\<close> stands in for the library's flattening in closed examples: it
  knows the pages above, and leaves a text without markup as it is.
\<close>

definition sample_get_text :: "pystr \<Rightarrow> error + pystr" where
  "sample_get_text html =
     Inr (if html = sample_html then sample_flat
          else if html = adjacent_html then adjacent_flat
          else if html = news_html then news_flat
          else if html = swapped_html then swapped_flat
          else html)"

text \<open>\<open>sample_digest\<close> stands in for the hash function in closed examples.\<close>

definition sample_digest :: "byte list \<Rightarrow> byte list" where
  "sample_digest bs = [of_nat (length bs), 171]"

definition sample_world :: world where
  "sample_world =
     \<lparr>http_get = (\<lambda>_. Inr \<lparr>status_code = 200, resp_text = sample_html\<rparr>),
      refuses = (\<lambda>_ _. None),
      cut_short = (\<lambda>_ _. None),
      stdout_raises = (\<lambda>_. None),
      flush_fails = False,
      environ = [py ''GITHUB_OUTPUT'' \<mapsto> py ''out.txt''],
      files = Map.empty,
      trace = []\<rparr>"

text \<open>
  The block of the sample page; the world a successful run on it leaves behind (without
  the output file); a world whose text file holds something else; one whose page has
  lost its end marker; one whose server answers 404; one where the state directory
  cannot be created.
\<close>

definition sample_block :: pystr where
  "sample_block = py ''Concert'' @ [LF, LF] @ py ''Friday''"

definition second_run_world :: world where
  "second_run_world =
     sample_world\<lparr>files := [HASH_FILE \<mapsto> utf8 (py ''0fab''), TEXT_FILE \<mapsto> utf8 sample_block]\<rparr>"

definition stale_text_world :: world where
  "stale_text_world =
     sample_world\<lparr>files :=
        [HASH_FILE \<mapsto> utf8 (py ''0fab''), TEXT_FILE \<mapsto> utf8 (py ''Old text'')]\<rparr>"






definition full_disk_world :: world where
  "full_disk_world =
     second_run_world\<lparr>cut_short := (\<lambda>p bs. Some (py ''No space left on device'', 0))\<rparr>"

definition alias_world :: world where
  "alias_world = sample_world\<lparr>environ := [py ''GITHUB_OUTPUT'' \<mapsto> TEXT_FILE]\<rparr>"

definition alias_second_run_world :: world where
  "alias_second_run_world =
     second_run_world\<lparr>environ := [py ''GITHUB_OUTPUT'' \<mapsto> TEXT_FILE]\<rparr>"

section \<open>The normalisation in the words of the specification\<close>

text \<open>
  The specification describes the normalisation by what it does to lines and to runs of
  line breaks, not by a scan. These definitions follow its words; they are compared with
  the two substitutions of the source below.

  \<open>split_lines\<close> cuts a text at every line feed (\<open>n\<close> line feeds give \<open>n + 1\<close>
  lines); \<open>join_lines\<close> puts a line feed between consecutive lines.
\<close>

fun split_lines :: "pystr \<Rightarrow> pystr list" where
  "split_lines [] = [[]]"
| "split_lines (c # cs) =
     (if c = LF then [] # split_lines cs
      else (c # hd (split_lines cs)) # tl (split_lines cs))"

fun join_lines :: "pystr list \<Rightarrow> pystr" where
  "join_lines [] = []"
| "join_lines [l] = l"
| "join_lines (l # m # ls) = l @ LF # join_lines (m # ls)"

definition rstrip_hws :: "pystr \<Rightarrow> pystr" where
  "rstrip_hws l = rev (dropWhile is_hws (rev l))"

text \<open>
  Trailing spaces and tabs are removed from every line that is followed by a line break,
  that is from every line but the last.
\<close>

definition spec_strip_line_ends :: "pystr \<Rightarrow> pystr" where
  "spec_strip_line_ends s =
     join_lines (map rstrip_hws (butlast (split_lines s)) @ [last (split_lines s)])"

text \<open>\<open>runs\<close> cuts a text into its maximal runs of one repeated character.\<close>

function runs :: "pystr \<Rightarrow> pystr list" where
  "runs [] = []"
| "runs (c # cs) = (c # takeWhile (\<lambda>x. x = c) cs) # runs (dropWhile (\<lambda>x. x = c) cs)"
  by pat_completeness auto
termination
proof (relation "measure length", goal_cases)
  case 1
  show ?case by simp
next
  case (2 c cs)
  have "length (dropWhile (\<lambda>x. x = c) cs) \<le> length cs"
    by (rule length_dropWhile_le)
  then show ?case by simp
qed

text \<open>Every run of three or more line feeds becomes exactly two; every other run stays.\<close>

definition collapse_run :: "pystr \<Rightarrow> pystr" where
  "collapse_run r = (if hd r = LF \<and> 3 \<le> length r then [LF, LF] else r)"

definition spec_collapse_breaks :: "pystr \<Rightarrow> pystr" where
  "spec_collapse_breaks s = concat (map collapse_run (runs s))"

definition spec_normalize :: "pystr \<Rightarrow> pystr" where
  "spec_normalize s = py_strip (spec_collapse_breaks (spec_strip_line_ends s))"

section \<open>Substrings and first occurrences\<close>

lemma find_sub_None_iff: "find_sub sub s = None \<longleftrightarrow> \<not> sublist sub s"
  by (induction s) (auto simp: sublist_Cons_right)

lemma py_contains_iff: "py_contains sub s \<longleftrightarrow> sublist sub s"
  by (simp add: py_contains_def find_sub_None_iff)

lemma prefix_of_longer_append:
  assumes "prefix xs (ys @ zs)" and "length xs \<le> length ys"
  shows "prefix xs ys"
  using assms by (auto simp: prefix_append)

lemma find_sub_first:
  assumes "\<not> sublist sub (pre @ butlast sub)"
  shows "find_sub sub (pre @ sub @ rest) = Some (length pre)"
  using assms
proof (induction pre)
  case Nil
  have "prefix sub (sub @ rest)" by simp
  then show ?case by (cases "sub @ rest") auto
next
  case (Cons p ps)
  have "\<not> prefix sub (p # ps @ sub @ rest)"
  proof
    assume a: "prefix sub (p # ps @ sub @ rest)"
    have "sub \<noteq> []" using Cons.prems by auto
    then have "length sub \<le> length ((p # ps) @ butlast sub)" by simp
    moreover have "prefix sub (((p # ps) @ butlast sub) @ (last sub # rest))"
      using a \<open>sub \<noteq> []\<close> by (metis append.assoc append_Cons append_Nil append_butlast_last_id)
    ultimately have "prefix sub ((p # ps) @ butlast sub)" by (rule prefix_of_longer_append[rotated])
    then show False using Cons.prems by auto
  qed
  moreover have "\<not> sublist sub (ps @ butlast sub)"
    using Cons.prems by (auto simp: sublist_Cons_right)
  ultimately show ?case using Cons.IH by simp
qed

lemma START_MARKER_nonempty: "START_MARKER \<noteq> []"
  by (simp add: START_MARKER_def py_def)

lemma END_MARKER_nonempty: "END_MARKER \<noteq> []"
  by (simp add: END_MARKER_def py_def)

lemma find_sub_Some_decomp:
  assumes "find_sub sub s = Some i" and "sub \<noteq> []"
  shows "\<exists>pre rest. s = pre @ sub @ rest \<and> length pre = i \<and> \<not> sublist sub (pre @ butlast sub)"
  using assms
proof (induction s arbitrary: i)
  case Nil
  then show ?case by simp
next
  case (Cons c cs)
  show ?case
  proof (cases "prefix sub (c # cs)")
    case True
    then obtain rest where r: "c # cs = sub @ rest" by (auto simp: prefix_def)
    have "length (butlast sub) < length sub" using Cons.prems(2) by simp
    then have "\<not> sublist sub (butlast sub)"
      by (metis sublist_length_le not_le)
    moreover have "i = 0" using True Cons.prems(1) by simp
    ultimately show ?thesis using r by (intro exI[of _ "[]"] exI[of _ rest]) simp
  next
    case False
    then obtain j where j: "find_sub sub cs = Some j" "i = Suc j"
      using Cons.prems(1) by auto
    from Cons.IH[OF j(1) Cons.prems(2)] obtain pre rest where
      d: "cs = pre @ sub @ rest" "length pre = j" "\<not> sublist sub (pre @ butlast sub)"
      by blast
    have "\<not> prefix sub (c # pre @ butlast sub)"
    proof
      assume "prefix sub (c # pre @ butlast sub)"
      then have "prefix sub ((c # pre @ butlast sub) @ (last sub # rest))"
        by (rule prefix_prefix)
      moreover have "(c # pre @ butlast sub) @ (last sub # rest) = c # cs"
        using d(1) Cons.prems(2) by simp
      ultimately show False using False by simp
    qed
    then have "\<not> sublist sub ((c # pre) @ butlast sub)"
      using d(3) by (simp add: sublist_Cons_right)
    then show ?thesis using d j by (intro exI[of _ "c # pre"] exI[of _ rest]) simp
  qed
qed

lemma first_occurrence_exists:
  assumes "sublist sub (s :: pystr)" and "sub \<noteq> []"
  shows "\<exists>pre rest. s = pre @ sub @ rest \<and> \<not> sublist sub (pre @ butlast sub)"
proof -
  from assms(1) obtain i where "find_sub sub s = Some i"
    using find_sub_None_iff by (cases "find_sub sub s") auto
  from find_sub_Some_decomp[OF this assms(2)] show ?thesis by blast
qed

lemma py_index_first:
  assumes "\<not> sublist sub (pre @ butlast sub)"
  shows "py_index (before @ pre @ sub @ rest) sub (length before) = Inr (length before + length pre)"
  using find_sub_first[OF assms] by (simp add: py_index_def)

lemma py_index_none:
  assumes "\<not> sublist sub rest"
  shows "py_index (before @ rest) sub (length before) = Inl (ValueError (py ''substring not found''))"
  using assms find_sub_None_iff[of sub rest] by (simp add: py_index_def)

lemma extract_success:
  assumes t: "get_text html = Inr (pre @ START_MARKER @ mid @ END_MARKER @ post)"
    and s: "\<not> sublist START_MARKER (pre @ butlast START_MARKER)"
    and e: "\<not> sublist END_MARKER (mid @ butlast END_MARKER)"
  shows "extract_current_social_events get_text html
           = Inr (py_strip (re_sub_nl3 (re_sub_hws_nl (py_strip mid))))"
proof -
  let ?t = "pre @ START_MARKER @ mid @ END_MARKER @ post"
  have c1: "py_contains START_MARKER ?t"
    unfolding py_contains_iff by (rule sublist_appendI)
  have c2: "py_contains END_MARKER ?t"
    unfolding py_contains_iff
    by (metis append.assoc sublist_appendI)
  have i1: "py_index ?t START_MARKER 0 = Inr (length pre)"
    using py_index_first[OF s, of "[]" "mid @ END_MARKER @ post"] by simp
  have i2: "py_index ?t END_MARKER (length pre + length START_MARKER)
              = Inr (length pre + length START_MARKER + length mid)"
    using py_index_first[OF e, of "pre @ START_MARKER" post] by simp
  have sl: "py_slice ?t (length pre + length START_MARKER)
              (length pre + length START_MARKER + length mid) = mid"
    unfolding py_slice_def by simp
  show ?thesis
    unfolding extract_current_social_events_def Let_def t
    using c1 c2 by (simp add: i1 i2 sl)
qed

lemma extract_rejected:
  assumes "get_text html = Inl e"
  shows "extract_current_social_events get_text html = Inl e"
  using assms by (simp add: extract_current_social_events_def)

lemma extract_absent:
  assumes "get_text html = Inr t"
    and "\<not> sublist START_MARKER t \<or> \<not> sublist END_MARKER t"
  shows "extract_current_social_events get_text html = Inl (RuntimeError markers_message)"
  using assms by (auto simp: extract_current_social_events_def py_contains_iff)

lemma extract_end_not_after:
  assumes t: "get_text html = Inr (pre @ START_MARKER @ rest)"
    and s: "\<not> sublist START_MARKER (pre @ butlast START_MARKER)"
    and p: "sublist END_MARKER (pre @ START_MARKER @ rest)"
    and e: "\<not> sublist END_MARKER rest"
  shows "extract_current_social_events get_text html
           = Inl (ValueError (py ''substring not found''))"
proof -
  let ?t = "pre @ START_MARKER @ rest"
  have c1: "py_contains START_MARKER ?t"
    unfolding py_contains_iff by (rule sublist_appendI)
  have c2: "py_contains END_MARKER ?t"
    using p by (simp add: py_contains_iff)
  have i1: "py_index ?t START_MARKER 0 = Inr (length pre)"
    using py_index_first[OF s, of "[]" rest] by simp
  have i2: "py_index ?t END_MARKER (length pre + length START_MARKER)
              = Inl (ValueError (py ''substring not found''))"
    using py_index_none[OF e, of "pre @ START_MARKER"] by simp
  show ?thesis
    unfolding extract_current_social_events_def Let_def t
    using c1 c2 by (simp add: i1 i2)
qed

lemma first_occurrence_unique:
  assumes "pre @ sub @ rest = pre' @ sub @ (rest' :: pystr)"
    and "\<not> sublist sub (pre @ butlast sub)" and "\<not> sublist sub (pre' @ butlast sub)"
  shows "pre = pre' \<and> rest = rest'"
proof -
  have "find_sub sub (pre @ sub @ rest) = Some (length pre)"
    by (rule find_sub_first[OF assms(2)])
  moreover have "find_sub sub (pre' @ sub @ rest') = Some (length pre')"
    by (rule find_sub_first[OF assms(3)])
  ultimately have "length pre = length pre'" using assms(1) by simp
  then show ?thesis using assms(1) by simp
qed

section \<open>The normalisation: the scans of the source and the words of the specification\<close>

text \<open>
  Both substitutions distribute over a cut of the text at which no match can straddle;
  from this, the first \<open>strip\<close> of the source changes nothing in the result, the
  first substitution strips the end of every line that is followed by a line break, and
  the second one shortens the runs of three or more line breaks to two.
\<close>

lemma is_hws_is_space: "is_hws c \<Longrightarrow> is_space c"
  by (auto simp: is_hws_def is_space_def)

lemma LF_is_space: "is_space LF"
  by (simp add: is_space_def)

lemma match_hws_nl_Some:
  assumes "match_hws_nl s = Some r"
  shows "s = takeWhile is_hws s @ LF # r"
proof -
  from assms have "dropWhile is_hws s = LF # r"
    by (auto simp: match_hws_nl_def split: list.splits if_splits)
  then show ?thesis
    by (metis takeWhile_dropWhile_id)
qed

lemma match_hws_nl_append_left:
  assumes "B = [] \<or> (\<not> is_hws (hd B) \<and> hd B \<noteq> LF)"
  shows "match_hws_nl (A @ B) = map_option (\<lambda>r. r @ B) (match_hws_nl A)"
proof (cases "\<forall>x\<in>set A. is_hws x")
  case True
  then have a: "dropWhile is_hws A = []" by simp
  have b: "dropWhile is_hws (A @ B) = dropWhile is_hws B"
    using True by (simp add: dropWhile_append2)
  have "dropWhile is_hws B = B"
    using assms by (cases B) auto
  then have "match_hws_nl (A @ B) = None"
    unfolding match_hws_nl_def b using assms by (cases B) auto
  moreover have "match_hws_nl A = None"
    unfolding match_hws_nl_def a by simp
  ultimately show ?thesis by simp
next
  case False
  then obtain x where x: "x \<in> set A" "\<not> is_hws x" by blast
  then have d: "dropWhile is_hws (A @ B) = dropWhile is_hws A @ B"
    by (rule dropWhile_append1)
  have t: "takeWhile is_hws (A @ B) = takeWhile is_hws A"
    using x by (rule takeWhile_append1)
  have "dropWhile is_hws A \<noteq> []"
    using x by (auto simp: dropWhile_eq_Nil_conv)
  then show ?thesis
    by (cases "dropWhile is_hws A") (auto simp: match_hws_nl_def d t)
qed

lemma match_hws_nl_append_right:
  assumes "A \<noteq> []" and "\<not> is_hws (last A)"
  shows "match_hws_nl (A @ B) = map_option (\<lambda>r. r @ B) (match_hws_nl A)"
proof -
  have x: "last A \<in> set A" using assms(1) by simp
  then have d: "dropWhile is_hws (A @ B) = dropWhile is_hws A @ B"
    using assms(2) by (rule dropWhile_append1)
  have t: "takeWhile is_hws (A @ B) = takeWhile is_hws A"
    using x assms(2) by (rule takeWhile_append1)
  have "dropWhile is_hws A \<noteq> []"
    using x assms(2) by (auto simp: dropWhile_eq_Nil_conv)
  then show ?thesis
    by (cases "dropWhile is_hws A") (auto simp: match_hws_nl_def d t)
qed

lemma re_sub_hws_nl_append_left:
  assumes "B = [] \<or> (\<not> is_hws (hd B) \<and> hd B \<noteq> LF)"
  shows "re_sub_hws_nl (A @ B) = re_sub_hws_nl A @ re_sub_hws_nl B"
proof (induction A rule: re_sub_hws_nl.induct)
  case 1
  show ?case by simp
next
  case (2 c cs)
  have m: "match_hws_nl (c # cs @ B) = map_option (\<lambda>r. r @ B) (match_hws_nl (c # cs))"
    using match_hws_nl_append_left[OF assms, of "c # cs"] by simp
  show ?case
  proof (cases "match_hws_nl (c # cs)")
    case None
    with m 2(1) show ?thesis by simp
  next
    case (Some r)
    with m 2(2) show ?thesis by simp
  qed
qed

lemma re_sub_hws_nl_append_right:
  assumes "A = [] \<or> \<not> is_hws (last A)"
  shows "re_sub_hws_nl (A @ B) = re_sub_hws_nl A @ re_sub_hws_nl B"
  using assms
proof (induction A rule: re_sub_hws_nl.induct)
  case 1
  show ?case by simp
next
  case (2 c cs)
  then have l: "\<not> is_hws (last (c # cs))" by simp
  have m: "match_hws_nl (c # cs @ B) = map_option (\<lambda>r. r @ B) (match_hws_nl (c # cs))"
    using match_hws_nl_append_right[of "c # cs" B] l by simp
  show ?case
  proof (cases "match_hws_nl (c # cs)")
    case None
    have "cs = [] \<or> \<not> is_hws (last cs)" using l by (cases cs) auto
    with m None 2(1) show ?thesis by simp
  next
    case (Some r)
    from match_hws_nl_Some[OF Some] have "r = [] \<or> last r = last (c # cs)"
      by (metis last_ConsR last_appendR list.distinct(1))
    then have "r = [] \<or> \<not> is_hws (last r)" using l by auto
    with m Some 2(2) show ?thesis by simp
  qed
qed

lemma match_nl3_Some:
  assumes "match_nl3 s = Some r"
  shows "s = takeWhile (\<lambda>c. c = LF) s @ r" and "r = dropWhile (\<lambda>c. c = LF) s"
    and "3 \<le> length (takeWhile (\<lambda>c. c = LF) s)"
  using assms by (auto simp: match_nl3_def split: if_splits)

lemma match_nl3_append_left:
  assumes "B = [] \<or> hd B \<noteq> LF"
  shows "match_nl3 (A @ B) = map_option (\<lambda>r. r @ B) (match_nl3 A)"
proof (cases "\<forall>x\<in>set A. x = LF")
  case True
  have tb: "takeWhile (\<lambda>c. c = LF) B = []" and db: "dropWhile (\<lambda>c. c = LF) B = B"
    using assms by (cases B; auto)+
  have t: "takeWhile (\<lambda>c. c = LF) (A @ B) = A"
    using True tb by (simp add: takeWhile_append2)
  have d: "dropWhile (\<lambda>c. c = LF) (A @ B) = B"
    using True db by (simp add: dropWhile_append2)
  have ta: "takeWhile (\<lambda>c. c = LF) A = A" and da: "dropWhile (\<lambda>c. c = LF) A = []"
    using True by simp_all
  have "match_nl3 (A @ B) = (if 3 \<le> length A then Some B else None)"
    unfolding match_nl3_def t d ..
  moreover have "match_nl3 A = (if 3 \<le> length A then Some [] else None)"
    unfolding match_nl3_def ta da ..
  ultimately show ?thesis by simp
next
  case False
  then obtain x where x: "x \<in> set A" "\<not> x = LF" by blast
  then have "dropWhile (\<lambda>c. c = LF) (A @ B) = dropWhile (\<lambda>c. c = LF) A @ B"
    by (rule dropWhile_append1)
  moreover have "takeWhile (\<lambda>c. c = LF) (A @ B) = takeWhile (\<lambda>c. c = LF) A"
    using x by (rule takeWhile_append1)
  ultimately show ?thesis
    by (simp add: match_nl3_def)
qed

lemma match_nl3_append_right:
  assumes "A \<noteq> []" and "last A \<noteq> LF"
  shows "match_nl3 (A @ B) = map_option (\<lambda>r. r @ B) (match_nl3 A)"
proof -
  have x: "last A \<in> set A" using assms(1) by simp
  then have "dropWhile (\<lambda>c. c = LF) (A @ B) = dropWhile (\<lambda>c. c = LF) A @ B"
    using assms(2) by (rule dropWhile_append1)
  moreover have "takeWhile (\<lambda>c. c = LF) (A @ B) = takeWhile (\<lambda>c. c = LF) A"
    using x assms(2) by (rule takeWhile_append1)
  ultimately show ?thesis
    by (simp add: match_nl3_def)
qed

lemma re_sub_nl3_append_left:
  assumes "B = [] \<or> hd B \<noteq> LF"
  shows "re_sub_nl3 (A @ B) = re_sub_nl3 A @ re_sub_nl3 B"
proof (induction A rule: re_sub_nl3.induct)
  case 1
  show ?case by simp
next
  case (2 c cs)
  have m: "match_nl3 (c # cs @ B) = map_option (\<lambda>r. r @ B) (match_nl3 (c # cs))"
    using match_nl3_append_left[OF assms, of "c # cs"] by simp
  show ?case
  proof (cases "match_nl3 (c # cs)")
    case None
    with m 2(1) show ?thesis by simp
  next
    case (Some r)
    with m 2(2) show ?thesis by simp
  qed
qed

lemma re_sub_nl3_append_right:
  assumes "A = [] \<or> last A \<noteq> LF"
  shows "re_sub_nl3 (A @ B) = re_sub_nl3 A @ re_sub_nl3 B"
  using assms
proof (induction A rule: re_sub_nl3.induct)
  case 1
  show ?case by simp
next
  case (2 c cs)
  then have l: "last (c # cs) \<noteq> LF" by simp
  have m: "match_nl3 (c # cs @ B) = map_option (\<lambda>r. r @ B) (match_nl3 (c # cs))"
    using match_nl3_append_right[of "c # cs" B] l by simp
  show ?case
  proof (cases "match_nl3 (c # cs)")
    case None
    have "cs = [] \<or> last cs \<noteq> LF" using l by (cases cs) auto
    with m None 2(1) show ?thesis by simp
  next
    case (Some r)
    from match_nl3_Some(1)[OF Some] have "r = [] \<or> last r = last (c # cs)"
      by (metis last_appendR)
    then have "r = [] \<or> last r \<noteq> LF" using l by auto
    with m Some 2(2) show ?thesis by simp
  qed
qed

lemma re_sub_hws_nl_single: "re_sub_hws_nl [x] = [x]"
  by (simp add: match_hws_nl_def)

lemma re_sub_nl3_single: "re_sub_nl3 [x] = [x]"
  by (simp add: match_nl3_def)

lemma re_sub_hws_nl_last:
  assumes "s \<noteq> []" and "\<not> is_space (last s)"
  shows "re_sub_hws_nl s \<noteq> [] \<and> last (re_sub_hws_nl s) = last s"
proof -
  have c: "\<not> is_hws (last s) \<and> last s \<noteq> LF"
    using assms(2) is_hws_is_space LF_is_space by auto
  have "re_sub_hws_nl (butlast s @ [last s])
          = re_sub_hws_nl (butlast s) @ re_sub_hws_nl [last s]"
    by (rule re_sub_hws_nl_append_left) (simp add: c)
  then have "re_sub_hws_nl s = re_sub_hws_nl (butlast s) @ [last s]"
    unfolding re_sub_hws_nl_single using assms(1) by simp
  then show ?thesis by simp
qed

lemma re_sub_nl3_last:
  assumes "s \<noteq> []" and "last s \<noteq> LF"
  shows "re_sub_nl3 s \<noteq> [] \<and> last (re_sub_nl3 s) = last s"
proof -
  have "re_sub_nl3 (butlast s @ [last s]) = re_sub_nl3 (butlast s) @ re_sub_nl3 [last s]"
    by (rule re_sub_nl3_append_left) (simp add: assms(2))
  then have "re_sub_nl3 s = re_sub_nl3 (butlast s) @ [last s]"
    unfolding re_sub_nl3_single using assms(1) by simp
  then show ?thesis by simp
qed

lemma re_sub_hws_nl_hd:
  assumes "s \<noteq> []" and "\<not> is_hws (hd s)"
  shows "re_sub_hws_nl s \<noteq> [] \<and> hd (re_sub_hws_nl s) = hd s"
  using assms by (cases s) (auto simp: match_hws_nl_def split: list.splits)

lemma re_sub_nl3_hd:
  assumes "s \<noteq> []" and "hd s \<noteq> LF"
  shows "re_sub_nl3 s \<noteq> [] \<and> hd (re_sub_nl3 s) = hd s"
  using assms by (cases s) (auto simp: match_nl3_def)

lemma set_re_sub_hws_nl: "set (re_sub_hws_nl s) \<subseteq> set s"
proof (induction s rule: re_sub_hws_nl.induct)
  case 1
  show ?case by simp
next
  case (2 c cs)
  show ?case
  proof (cases "match_hws_nl (c # cs)")
    case None
    with 2(1) show ?thesis by auto
  next
    case (Some r)
    from match_hws_nl_Some[OF Some] have "set (LF # r) \<subseteq> set (c # cs)"
      by (metis set_append Un_upper2)
    with Some 2(2) show ?thesis by auto
  qed
qed

lemma set_re_sub_nl3: "set (re_sub_nl3 s) \<subseteq> set s"
proof (induction s rule: re_sub_nl3.induct)
  case 1
  show ?case by simp
next
  case (2 c cs)
  show ?case
  proof (cases "match_nl3 (c # cs)")
    case None
    with 2(1) show ?thesis by auto
  next
    case (Some r)
    from match_nl3_Some[OF Some] have r: "set r \<subseteq> set (c # cs)"
      by (metis set_append Un_upper2)
    have "c = LF"
      using match_nl3_Some(3)[OF Some] by (cases "c = LF") auto
    with r Some 2(2) show ?thesis by auto
  qed
qed

lemma py_strip_all_space:
  assumes "\<forall>c\<in>set s. is_space c"
  shows "py_strip s = []"
proof -
  have d: "dropWhile is_space s = []"
    using assms by simp
  show ?thesis
    unfolding py_strip_def d by simp
qed

lemma py_strip_around_core:
  assumes "\<forall>c\<in>set L. is_space c" and "\<forall>c\<in>set R. is_space c"
    and "core \<noteq> []" and "\<not> is_space (hd core)" and "\<not> is_space (last core)"
  shows "py_strip (L @ core @ R) = core"
proof -
  have "dropWhile is_space (L @ core @ R) = dropWhile is_space (core @ R)"
    by (rule dropWhile_append2) (use assms(1) in auto)
  also have "\<dots> = core @ R"
    using assms(3,4) by (cases core) auto
  finally have a: "dropWhile is_space (L @ core @ R) = core @ R" .
  have "dropWhile is_space (rev R @ rev core) = dropWhile is_space (rev core)"
    by (rule dropWhile_append2) (use assms(2) in auto)
  also have "\<dots> = rev core"
    using assms(3,5) by (cases "rev core") (auto simp: hd_rev)
  finally show ?thesis
    by (simp add: py_strip_def a)
qed

lemma py_strip_decomp:
  obtains L R where "s = L @ py_strip s @ R"
    and "\<forall>c\<in>set L. is_space c" and "\<forall>c\<in>set R. is_space c"
    and "py_strip s = [] \<or> (\<not> is_space (hd (py_strip s)) \<and> \<not> is_space (last (py_strip s)))"
proof -
  let ?m = "dropWhile is_space s"
  let ?L = "takeWhile is_space s"
  let ?R = "rev (takeWhile is_space (rev ?m))"
  have m: "?m = py_strip s @ ?R"
    unfolding py_strip_def
    by (metis rev_append rev_rev_ident takeWhile_dropWhile_id)
  have 1: "s = ?L @ py_strip s @ ?R"
    using m by (metis takeWhile_dropWhile_id)
  have 2: "\<forall>c\<in>set ?L. is_space c"
    by (auto dest: set_takeWhileD)
  have 3: "\<forall>c\<in>set ?R. is_space c"
    by (auto dest: set_takeWhileD)
  have 4: "py_strip s = [] \<or> (\<not> is_space (hd (py_strip s)) \<and> \<not> is_space (last (py_strip s)))"
  proof (cases "py_strip s = []")
    case True
    then show ?thesis by simp
  next
    case False
    then have ne: "dropWhile is_space (rev ?m) \<noteq> []"
      by (simp add: py_strip_def)
    then have "\<not> is_space (hd (dropWhile is_space (rev ?m)))"
      by (rule hd_dropWhile)
    then have l: "\<not> is_space (last (py_strip s))"
      using ne by (simp add: py_strip_def last_rev)
    have "?m \<noteq> []" using m False by (metis append_is_Nil_conv)
    then have "\<not> is_space (hd ?m)" by (rule hd_dropWhile)
    moreover have "hd ?m = hd (py_strip s)"
      using m False by (metis hd_append2)
    ultimately show ?thesis using l by simp
  qed
  from 1 2 3 4 show ?thesis by (rule that)
qed

lemma not_space_not_hws: "\<not> is_space c \<Longrightarrow> \<not> is_hws c \<and> c \<noteq> LF"
  using is_hws_is_space LF_is_space by auto

lemma normalize_core:
  assumes "core \<noteq> []" and "\<not> is_space (hd core)" and "\<not> is_space (last core)"
    and "\<forall>c\<in>set L. is_space c" and "\<forall>c\<in>set R. is_space c"
  shows "py_strip (re_sub_nl3 (re_sub_hws_nl (L @ core @ R))) = re_sub_nl3 (re_sub_hws_nl core)"
proof -
  let ?c1 = "re_sub_hws_nl core"
  let ?c2 = "re_sub_nl3 ?c1"
  have h1: "?c1 \<noteq> [] \<and> hd ?c1 = hd core"
    using re_sub_hws_nl_hd[of core] assms(1,2) not_space_not_hws by blast
  have l1: "?c1 \<noteq> [] \<and> last ?c1 = last core"
    using re_sub_hws_nl_last[of core] assms(1,3) by blast
  have h2: "?c2 \<noteq> [] \<and> hd ?c2 = hd core"
    using re_sub_nl3_hd[of ?c1] h1 assms(2) not_space_not_hws by simp
  have l2: "?c2 \<noteq> [] \<and> last ?c2 = last core"
    using re_sub_nl3_last[of ?c1] l1 assms(3) not_space_not_hws by simp
  have "re_sub_hws_nl (L @ (core @ R)) = re_sub_hws_nl L @ re_sub_hws_nl (core @ R)"
    by (rule re_sub_hws_nl_append_left) (use assms(1,2) not_space_not_hws in auto)
  also have "re_sub_hws_nl (core @ R) = ?c1 @ re_sub_hws_nl R"
    by (rule re_sub_hws_nl_append_right) (use assms(3) not_space_not_hws in auto)
  finally have e1: "re_sub_hws_nl (L @ core @ R) = re_sub_hws_nl L @ ?c1 @ re_sub_hws_nl R" .
  have "re_sub_nl3 (re_sub_hws_nl L @ (?c1 @ re_sub_hws_nl R))
          = re_sub_nl3 (re_sub_hws_nl L) @ re_sub_nl3 (?c1 @ re_sub_hws_nl R)"
    by (rule re_sub_nl3_append_left) (use h1 assms(2) not_space_not_hws in auto)
  also have "re_sub_nl3 (?c1 @ re_sub_hws_nl R) = ?c2 @ re_sub_nl3 (re_sub_hws_nl R)"
    by (rule re_sub_nl3_append_right) (use l1 assms(3) not_space_not_hws in auto)
  finally have e2: "re_sub_nl3 (re_sub_hws_nl (L @ core @ R))
      = re_sub_nl3 (re_sub_hws_nl L) @ ?c2 @ re_sub_nl3 (re_sub_hws_nl R)"
    by (simp add: e1)
  have sL: "\<forall>c\<in>set (re_sub_nl3 (re_sub_hws_nl L)). is_space c"
    using set_re_sub_nl3[of "re_sub_hws_nl L"] set_re_sub_hws_nl[of L] assms(4) by blast
  have sR: "\<forall>c\<in>set (re_sub_nl3 (re_sub_hws_nl R)). is_space c"
    using set_re_sub_nl3[of "re_sub_hws_nl R"] set_re_sub_hws_nl[of R] assms(5) by blast
  show ?thesis
    unfolding e2
    by (rule py_strip_around_core[OF sL sR]) (use h2 l2 assms(2,3) in auto)
qed

lemma first_strip_redundant:
  "py_strip (re_sub_nl3 (re_sub_hws_nl (py_strip s))) = py_strip (re_sub_nl3 (re_sub_hws_nl s))"
proof -
  define core where "core = py_strip s"
  obtain L R where d: "s = L @ core @ R"
    "\<forall>c\<in>set L. is_space c" "\<forall>c\<in>set R. is_space c"
    "core = [] \<or> (\<not> is_space (hd core) \<and> \<not> is_space (last core))"
    unfolding core_def by (rule py_strip_decomp)
  show ?thesis
  proof (cases "core = []")
    case True
    have "set s = set L \<union> set R"
      unfolding d(1) True by simp
    with d(2,3) have "\<forall>c\<in>set s. is_space c"
      by blast
    then have "\<forall>c\<in>set (re_sub_nl3 (re_sub_hws_nl s)). is_space c"
      using set_re_sub_nl3[of "re_sub_hws_nl s"] set_re_sub_hws_nl[of s] by blast
    then have "py_strip (re_sub_nl3 (re_sub_hws_nl s)) = []"
      by (rule py_strip_all_space)
    moreover have "py_strip (re_sub_nl3 (re_sub_hws_nl [])) = []"
      by (simp add: py_strip_def)
    ultimately show ?thesis
      using True by (simp add: core_def)
  next
    case False
    with d(4) have c: "\<not> is_space (hd core)" "\<not> is_space (last core)"
      by auto
    have "py_strip (re_sub_nl3 (re_sub_hws_nl (L @ core @ R))) = re_sub_nl3 (re_sub_hws_nl core)"
      by (rule normalize_core[OF False c d(2,3)])
    moreover have "py_strip (re_sub_nl3 (re_sub_hws_nl ([] @ core @ [])))
            = re_sub_nl3 (re_sub_hws_nl core)"
      by (rule normalize_core[OF False c]) simp_all
    ultimately have "py_strip (re_sub_nl3 (re_sub_hws_nl core))
        = py_strip (re_sub_nl3 (re_sub_hws_nl s))"
      unfolding d(1) by simp
    then show ?thesis
      by (simp add: core_def)
  qed
qed

lemma split_lines_nonempty: "split_lines s \<noteq> []"
  by (induction s) auto

lemma split_lines_no_LF:
  assumes "LF \<notin> set l"
  shows "split_lines l = [l]"
  using assms by (induction l) auto

lemma split_lines_line:
  assumes "LF \<notin> set l"
  shows "split_lines (l @ LF # rest) = l # split_lines rest"
  using assms by (induction l) auto

lemma join_lines_Cons:
  assumes "ls \<noteq> []"
  shows "join_lines (l # ls) = l @ LF # join_lines ls"
  using assms by (cases ls) auto

lemma spec_strip_line_ends_no_LF:
  assumes "LF \<notin> set l"
  shows "spec_strip_line_ends l = l"
  using split_lines_no_LF[OF assms] by (simp add: spec_strip_line_ends_def)

lemma spec_strip_line_ends_line:
  assumes "LF \<notin> set l"
  shows "spec_strip_line_ends (l @ LF # rest) = rstrip_hws l @ LF # spec_strip_line_ends rest"
proof -
  let ?xs = "split_lines rest"
  have ne: "?xs \<noteq> []" by (rule split_lines_nonempty)
  have "spec_strip_line_ends (l @ LF # rest)
          = join_lines (rstrip_hws l # (map rstrip_hws (butlast ?xs) @ [last ?xs]))"
    using ne by (simp add: spec_strip_line_ends_def split_lines_line[OF assms])
  also have "\<dots> = rstrip_hws l @ LF # join_lines (map rstrip_hws (butlast ?xs) @ [last ?xs])"
    by (rule join_lines_Cons) simp
  finally show ?thesis
    by (simp add: spec_strip_line_ends_def)
qed

lemma match_hws_nl_no_LF:
  assumes "LF \<notin> set s"
  shows "match_hws_nl s = None"
proof (cases "dropWhile is_hws s")
  case Nil
  show ?thesis
    unfolding match_hws_nl_def Nil by simp
next
  case (Cons d ds)
  then have "d \<in> set s"
    by (metis list.set_intros(1) set_dropWhileD)
  with assms have "d \<noteq> LF" by auto
  then show ?thesis
    unfolding match_hws_nl_def Cons by simp
qed

lemma re_sub_hws_nl_no_LF:
  assumes "LF \<notin> set l"
  shows "re_sub_hws_nl l = l"
  using assms
proof (induction l)
  case Nil
  show ?case by simp
next
  case (Cons c cs)
  then have "match_hws_nl (c # cs) = None" by (intro match_hws_nl_no_LF) simp
  with Cons show ?case by simp
qed

lemma re_sub_hws_nl_spaces_then_LF:
  assumes "\<forall>c\<in>set t. is_hws c"
  shows "re_sub_hws_nl (t @ LF # rest) = LF # re_sub_hws_nl rest"
proof (cases t)
  case Nil
  have "match_hws_nl (LF # rest) = None"
    by (simp add: match_hws_nl_def is_hws_def)
  with Nil show ?thesis by simp
next
  case (Cons c t')
  have "dropWhile is_hws (t @ LF # rest) = LF # rest"
    using assms by (simp add: dropWhile_append2 is_hws_def)
  moreover have "takeWhile is_hws (t @ LF # rest) \<noteq> []"
    using assms Cons by simp
  ultimately have "match_hws_nl ((c # t') @ LF # rest) = Some rest"
    using Cons by (simp add: match_hws_nl_def)
  with Cons show ?thesis by simp
qed

lemma rstrip_hws_decomp:
  obtains t where "l = rstrip_hws l @ t" and "\<forall>c\<in>set t. is_hws c"
    and "rstrip_hws l = [] \<or> \<not> is_hws (last (rstrip_hws l))"
proof -
  let ?t = "rev (takeWhile is_hws (rev l))"
  have 1: "l = rstrip_hws l @ ?t"
    unfolding rstrip_hws_def by (metis rev_append rev_rev_ident takeWhile_dropWhile_id)
  have 2: "\<forall>c\<in>set ?t. is_hws c"
    by (auto dest: set_takeWhileD)
  have 3: "rstrip_hws l = [] \<or> \<not> is_hws (last (rstrip_hws l))"
  proof (cases "rstrip_hws l = []")
    case True
    then show ?thesis by simp
  next
    case False
    then have ne: "dropWhile is_hws (rev l) \<noteq> []"
      by (simp add: rstrip_hws_def)
    then have "\<not> is_hws (hd (dropWhile is_hws (rev l)))"
      by (rule hd_dropWhile)
    then show ?thesis
      using ne by (simp add: rstrip_hws_def last_rev)
  qed
  from 1 2 3 show ?thesis by (rule that)
qed

lemma re_sub_hws_nl_line:
  assumes "LF \<notin> set l"
  shows "re_sub_hws_nl (l @ LF # rest) = rstrip_hws l @ LF # re_sub_hws_nl rest"
proof -
  define body where "body = rstrip_hws l"
  obtain t where d: "l = body @ t" "\<forall>c\<in>set t. is_hws c"
    "body = [] \<or> \<not> is_hws (last body)"
    unfolding body_def by (rule rstrip_hws_decomp)
  have nb: "LF \<notin> set body"
    using assms unfolding d(1) by simp
  have "re_sub_hws_nl (l @ LF # rest) = re_sub_hws_nl (body @ (t @ LF # rest))"
    unfolding d(1) by simp
  also have "\<dots> = re_sub_hws_nl body @ re_sub_hws_nl (t @ LF # rest)"
    by (rule re_sub_hws_nl_append_right) (rule d(3))
  also have "\<dots> = body @ LF # re_sub_hws_nl rest"
    by (simp add: re_sub_hws_nl_no_LF[OF nb] re_sub_hws_nl_spaces_then_LF[OF d(2)])
  finally show ?thesis
    by (simp add: body_def)
qed

lemma re_sub_hws_nl_is_spec: "re_sub_hws_nl s = spec_strip_line_ends s"
proof (induction "length s" arbitrary: s rule: less_induct)
  case less
  define l where "l = takeWhile (\<lambda>c. c \<noteq> LF) s"
  have nl: "LF \<notin> set l"
    unfolding l_def by (auto dest: set_takeWhileD)
  show ?case
  proof (cases "dropWhile (\<lambda>c. c \<noteq> LF) s")
    case Nil
    then have "LF \<notin> set s" by auto
    then show ?thesis
      by (simp add: re_sub_hws_nl_no_LF spec_strip_line_ends_no_LF)
  next
    case (Cons d rest)
    have "dropWhile (\<lambda>c. c \<noteq> LF) s \<noteq> []"
      unfolding Cons by simp
    from hd_dropWhile[OF this] have "d = LF"
      unfolding Cons by simp
    have "s = takeWhile (\<lambda>c. c \<noteq> LF) s @ dropWhile (\<lambda>c. c \<noteq> LF) s"
      by simp
    then have s: "s = l @ LF # rest"
      unfolding Cons l_def \<open>d = LF\<close> .
    have "length rest < length s"
      unfolding s by simp
    then have "re_sub_hws_nl rest = spec_strip_line_ends rest"
      by (rule less)
    then show ?thesis
      unfolding s by (simp add: re_sub_hws_nl_line[OF nl] spec_strip_line_ends_line[OF nl])
  qed
qed

lemma match_nl3_no_LF_head:
  assumes "c \<noteq> LF"
  shows "match_nl3 (c # cs) = None"
  using assms by (simp add: match_nl3_def)

lemma re_sub_nl3_no_LF:
  assumes "LF \<notin> set s"
  shows "re_sub_nl3 s = s"
  using assms by (induction s) (simp_all add: match_nl3_no_LF_head)

lemma re_sub_nl3_run:
  assumes "rest = [] \<or> hd rest \<noteq> c"
  shows "re_sub_nl3 ((c # replicate n c) @ rest) = collapse_run (c # replicate n c) @ re_sub_nl3 rest"
proof (cases "c = LF")
  case False
  then have "LF \<notin> set (c # replicate n c)" by auto
  then have "re_sub_nl3 (c # replicate n c) = c # replicate n c"
    by (rule re_sub_nl3_no_LF)
  moreover have "re_sub_nl3 ((c # replicate n c) @ rest)
      = re_sub_nl3 (c # replicate n c) @ re_sub_nl3 rest"
    by (rule re_sub_nl3_append_right) (use False in auto)
  ultimately show ?thesis
    using False by (simp add: collapse_run_def)
next
  case True
  have tr: "takeWhile (\<lambda>x. x = LF) rest = []" and dr: "dropWhile (\<lambda>x. x = LF) rest = rest"
    using assms True by (cases rest; auto)+
  have "takeWhile (\<lambda>x. x = LF) ((c # replicate n c) @ rest)
      = (c # replicate n c) @ takeWhile (\<lambda>x. x = LF) rest"
    by (rule takeWhile_append2) (use True in auto)
  then have t: "takeWhile (\<lambda>x. x = LF) ((c # replicate n c) @ rest) = c # replicate n c"
    unfolding tr by simp
  have "dropWhile (\<lambda>x. x = LF) ((c # replicate n c) @ rest) = dropWhile (\<lambda>x. x = LF) rest"
    by (rule dropWhile_append2) (use True in auto)
  then have d: "dropWhile (\<lambda>x. x = LF) ((c # replicate n c) @ rest) = rest"
    unfolding dr .
  show ?thesis
  proof (cases "2 \<le> n")
    case long: True
    then have "match_nl3 ((c # replicate n c) @ rest) = Some rest"
      unfolding match_nl3_def t d by simp
    then have "re_sub_nl3 (c # replicate n c @ rest) = LF # LF # re_sub_nl3 rest"
      by simp
    with long True show ?thesis
      by (simp add: collapse_run_def)
  next
    case short: False
    then have n: "n = 0 \<or> n = 1" by arith
    have "re_sub_nl3 ((c # replicate n c) @ rest)
        = re_sub_nl3 (c # replicate n c) @ re_sub_nl3 rest"
      by (rule re_sub_nl3_append_left) (use assms True in auto)
    moreover have "re_sub_nl3 (c # replicate n c) = c # replicate n c"
      using n True by (auto simp: match_nl3_def)
    ultimately show ?thesis
      using n by (auto simp: collapse_run_def)
  qed
qed

lemma run_split:
  "c # cs = (c # replicate (length (takeWhile (\<lambda>x. x = c) cs)) c) @ dropWhile (\<lambda>x. x = c) cs"
proof -
  have "takeWhile (\<lambda>x. x = c) cs = replicate (length (takeWhile (\<lambda>x. x = c) cs)) c"
    by (rule replicate_length_same[symmetric]) (auto dest: set_takeWhileD)
  then show ?thesis
    by (metis append_Cons takeWhile_dropWhile_id)
qed

lemma re_sub_nl3_is_spec: "re_sub_nl3 s = spec_collapse_breaks s"
proof (induction s rule: runs.induct)
  case 1
  show ?case by (simp add: spec_collapse_breaks_def)
next
  case (2 c cs)
  define n where "n = length (takeWhile (\<lambda>x. x = c) cs)"
  define rest where "rest = dropWhile (\<lambda>x. x = c) cs"
  have tw: "takeWhile (\<lambda>x. x = c) cs = replicate n c"
    unfolding n_def by (rule replicate_length_same[symmetric]) (auto dest: set_takeWhileD)
  have s: "c # cs = (c # replicate n c) @ rest"
    unfolding n_def rest_def by (rule run_split)
  have r: "rest = [] \<or> hd rest \<noteq> c"
    unfolding rest_def using hd_dropWhile[of "\<lambda>x. x = c" cs] by blast
  have "re_sub_nl3 (c # cs) = collapse_run (c # replicate n c) @ re_sub_nl3 rest"
    unfolding s by (rule re_sub_nl3_run[OF r])
  also have "re_sub_nl3 rest = spec_collapse_breaks rest"
    unfolding rest_def by (rule 2)
  finally show ?case
    by (simp add: spec_collapse_breaks_def tw rest_def)
qed

lemma prefix_three_LF:
  assumes "prefix [LF, LF, LF] s"
  shows "3 \<le> length (takeWhile (\<lambda>c. c = LF) s)"
  using assms by (auto simp: prefix_def)

lemma takeWhile_after_dropWhile: "takeWhile P (dropWhile P xs) = []"
  by (induction xs) auto

lemma re_sub_nl3_leading_and_triples:
  "length (takeWhile (\<lambda>c. c = LF) (re_sub_nl3 s)) = min 2 (length (takeWhile (\<lambda>c. c = LF) s))
   \<and> \<not> sublist [LF, LF, LF] (re_sub_nl3 s)"
proof (induction s rule: re_sub_nl3.induct)
  case 1
  show ?case by simp
next
  case (2 c cs)
  show ?case
  proof (cases "match_nl3 (c # cs)")
    case None
    then have short: "\<not> 3 \<le> length (takeWhile (\<lambda>x. x = LF) (c # cs))"
      by (simp add: match_nl3_def split: if_splits)
    from 2(1)[OF None] have
      ih: "length (takeWhile (\<lambda>c. c = LF) (re_sub_nl3 cs))
             = min 2 (length (takeWhile (\<lambda>c. c = LF) cs))"
        "\<not> sublist [LF, LF, LF] (re_sub_nl3 cs)"
      by simp_all
    have out: "re_sub_nl3 (c # cs) = c # re_sub_nl3 cs"
      using None by simp
    have lead: "length (takeWhile (\<lambda>x. x = LF) (c # re_sub_nl3 cs))
        = min 2 (length (takeWhile (\<lambda>x. x = LF) (c # cs)))"
      using short ih(1) by (cases "c = LF") auto
    then have "\<not> prefix [LF, LF, LF] (c # re_sub_nl3 cs)"
      using prefix_three_LF[of "c # re_sub_nl3 cs"] by auto
    with ih(2) have "\<not> sublist [LF, LF, LF] (c # re_sub_nl3 cs)"
      by (simp add: sublist_Cons_right)
    with lead show ?thesis
      unfolding out by simp
  next
    case (Some r)
    have long: "3 \<le> length (takeWhile (\<lambda>x. x = LF) (c # cs))"
      by (rule match_nl3_Some(3)[OF Some])
    have "takeWhile (\<lambda>x. x = LF) r = []"
      unfolding match_nl3_Some(2)[OF Some] by (rule takeWhile_after_dropWhile)
    with 2(2)[OF Some] have
      ih: "takeWhile (\<lambda>c. c = LF) (re_sub_nl3 r) = []"
        "\<not> sublist [LF, LF, LF] (re_sub_nl3 r)"
      by simp_all
    have out: "re_sub_nl3 (c # cs) = LF # LF # re_sub_nl3 r"
      using Some by simp
    have l2: "length (takeWhile (\<lambda>x. x = LF) (LF # LF # re_sub_nl3 r)) = 2"
      and l1: "length (takeWhile (\<lambda>x. x = LF) (LF # re_sub_nl3 r)) = 1"
      using ih(1) by simp_all
    have "\<not> prefix [LF, LF, LF] (LF # LF # re_sub_nl3 r)"
      using prefix_three_LF[of "LF # LF # re_sub_nl3 r"] l2 by auto
    moreover have "\<not> prefix [LF, LF, LF] (LF # re_sub_nl3 r)"
      using prefix_three_LF[of "LF # re_sub_nl3 r"] l1 by auto
    ultimately have "\<not> sublist [LF, LF, LF] (LF # LF # re_sub_nl3 r)"
      using ih(2) by (simp add: sublist_Cons_right)
    with l2 long show ?thesis
      unfolding out by simp
  qed
qed

lemma sublist_py_strip: "sublist (py_strip s) s"
proof -
  obtain L R where "s = L @ py_strip s @ R"
    by (rule py_strip_decomp)
  then show ?thesis
    unfolding sublist_def by blast
qed

lemma py_strip_trimmed:
  "py_strip s = [] \<or> (\<not> is_space (hd (py_strip s)) \<and> \<not> is_space (last (py_strip s)))"
  by (rule py_strip_decomp[of s])

lemma spec_normalize_is_code:
  "py_strip (re_sub_nl3 (re_sub_hws_nl (py_strip s))) = spec_normalize s"
  unfolding spec_normalize_def first_strip_redundant
  by (simp add: re_sub_hws_nl_is_spec re_sub_nl3_is_spec)

lemma spec_normalize_no_triple: "\<not> sublist [LF, LF, LF] (spec_normalize s)"
proof
  assume "sublist [LF, LF, LF] (spec_normalize s)"
  moreover have "sublist (spec_normalize s) (re_sub_nl3 (re_sub_hws_nl s))"
    unfolding spec_normalize_def
    by (simp add: re_sub_hws_nl_is_spec re_sub_nl3_is_spec sublist_py_strip)
  ultimately have "sublist [LF, LF, LF] (re_sub_nl3 (re_sub_hws_nl s))"
    by (rule sublist_order.order.trans)
  then show False
    using re_sub_nl3_leading_and_triples[of "re_sub_hws_nl s"] by simp
qed

lemma first_occurrence_before:
  assumes eq: "a @ sub @ b = pre @ sub @ (rest :: pystr)"
    and first: "\<not> sublist sub (pre @ butlast sub)"
  shows "length pre \<le> length a"
proof (rule ccontr)
  assume "\<not> length pre \<le> length a"
  then have lt: "length a < length pre" by simp
  have ne: "sub \<noteq> []" using first by auto
  from eq lt obtain x where x: "pre = a @ x" "x \<noteq> []"
    by (auto simp: append_eq_append_conv2)
  with eq have "sub @ b = x @ sub @ rest" by simp
  then have "prefix sub ((x @ butlast sub) @ (last sub # rest))"
    using ne by (metis append.assoc append_Cons append_Nil append_butlast_last_id prefixI)
  moreover have "length sub \<le> length (x @ butlast sub)"
    using x(2) ne by (cases x) auto
  ultimately have "prefix sub (x @ butlast sub)"
    by (rule prefix_of_longer_append)
  then obtain z where "x @ butlast sub = sub @ z"
    by (auto simp: prefix_def)
  then have "a @ x @ butlast sub = a @ sub @ z"
    by simp
  then have "sublist sub (a @ x @ butlast sub)"
    unfolding sublist_def by blast
  with first x(1) show False by simp
qed

lemma marked_region_exists:
  assumes t: "(full_text :: pystr) = a @ START_MARKER @ b" and e: "sublist END_MARKER b"
  shows "\<exists>pre mid post. full_text = pre @ START_MARKER @ mid @ END_MARKER @ post \<and>
           \<not> sublist START_MARKER (pre @ butlast START_MARKER) \<and>
           \<not> sublist END_MARKER (mid @ butlast END_MARKER)"
proof -
  have "sublist START_MARKER (full_text)"
    unfolding t by (rule sublist_appendI)
  from first_occurrence_exists[OF this START_MARKER_nonempty] obtain pre rest where
    p: "full_text = pre @ START_MARKER @ rest"
       "\<not> sublist START_MARKER (pre @ butlast START_MARKER)"
    by blast
  have eq: "a @ START_MARKER @ b = pre @ START_MARKER @ rest"
    using t p(1) by simp
  from first_occurrence_before[OF eq p(2)] have le: "length pre \<le> length a" .
  have "drop (length a + length START_MARKER) (a @ START_MARKER @ b) = b"
    by simp
  moreover have "drop (length a + length START_MARKER) (pre @ START_MARKER @ rest)
      = drop (length a - length pre) rest"
    using le by simp
  ultimately have "b = drop (length a - length pre) rest"
    using eq by simp
  then have "suffix b rest"
    by (metis suffix_drop)
  with e have "sublist END_MARKER rest"
    by (metis sublist_order.order.trans suffix_imp_sublist)
  from first_occurrence_exists[OF this END_MARKER_nonempty] obtain mid post where
    m: "rest = mid @ END_MARKER @ post" "\<not> sublist END_MARKER (mid @ butlast END_MARKER)"
    by blast
  from p m show ?thesis by blast
qed

section \<open>The run, stage by stage\<close>

text \<open>
  Whether a stage raises depends on what the operating system answers, and what a stage
  leaves behind is a function of the world it finds. A run then follows one of twelve
  paths, from the refusal to create the state directory to success, and each path fixes
  the exit code, the events and the files.
\<close>

lemma state_files_distinct: "HASH_FILE \<noteq> TEXT_FILE"
  by (simp add: HASH_FILE_def TEXT_FILE_def py_def)

lemma py_strip_no_space:
  assumes "\<forall>c\<in>set s. \<not> is_space c"
  shows "py_strip s = s"
proof -
  have "dropWhile is_space s = s"
    using assms by (cases s) auto
  moreover have "dropWhile is_space (rev s) = rev s"
    using assms by (cases "rev s") (auto dest: arg_cong[where f = set])
  ultimately show ?thesis by (simp add: py_strip_def)
qed

lemma hex_digit_range:
  assumes "n < 16"
  shows "hex_digit n \<in> set (py ''0123456789abcdef'')"
proof -
  have "list_all (\<lambda>k. hex_digit k \<in> set (py ''0123456789abcdef'')) [0..<16]"
    by code_simp
  moreover have "n \<in> set [0..<16]"
    using assms by simp
  ultimately show ?thesis
    unfolding list_all_iff by blast
qed

lemma hexdigest_alphabet: "set (hexdigest bs) \<subseteq> set (py ''0123456789abcdef'')"
proof -
  have "unat b div 16 < 16" for b :: byte
    using unsigned_less[of b, where 'a = nat] by simp
  moreover have "unat b mod 16 < 16" for b :: byte by simp
  ultimately show ?thesis
    unfolding hexdigest_def using hex_digit_range by auto
qed

lemma hexdigest_length: "length (hexdigest bs) = 2 * length bs"
  by (induction bs) (simp_all add: hexdigest_def)

lemma hex_alphabet_plain:
  assumes "c \<in> set (py ''0123456789abcdef'')"
  shows "c < 128" and "c \<noteq> 13" and "\<not> is_space c" and "\<not> is_surrogate c"
  using assms by (auto simp: py_def is_space_def is_surrogate_def)

lemma hexdigest_plain:
  assumes "c \<in> set (hexdigest bs)"
  shows "c < 128" and "c \<noteq> 13" and "\<not> is_space c" and "\<not> is_surrogate c"
  using assms hexdigest_alphabet[of bs] hex_alphabet_plain[of c] by blast+

lemma py_strip_hexdigest: "py_strip (hexdigest bs) = hexdigest bs"
  by (rule py_strip_no_space) (simp add: hexdigest_plain(3))

subsection \<open>Encoding and decoding plain text\<close>

lemma utf8_append: "utf8 (a @ b) = utf8 a @ utf8 b"
  by (simp add: utf8_def)

lemma utf8_ascii:
  assumes "\<forall>c\<in>set s. c < 128"
  shows "utf8 s = map of_nat s"
  using assms by (induction s) (simp_all add: utf8_def utf8_char_def)

lemma unat_ascii:
  assumes "c < 128"
  shows "unat (of_nat c :: byte) = c"
  using assms by (simp add: unat_of_nat)

lemma decode_utf8_ascii:
  assumes "\<forall>c\<in>set s. c < 128"
  shows "decode_utf8 (map of_nat s) = Some s"
  using assms
proof (induction s)
  case Nil
  show ?case by simp
next
  case (Cons c cs)
  then have c: "unat (of_nat c :: byte) = c" "c < 128"
    by (simp_all add: unat_ascii)
  have "decode_char (of_nat c) [] = Some c"
    using c by (simp add: decode_char_def lead_bits_def least_code_def seq_len_def is_surrogate_def)
  with Cons c show ?case
    by (simp add: seq_len_def)
qed

lemma universal_newlines_plain:
  assumes "13 \<notin> set s"
  shows "universal_newlines s = s"
  using assms by (induction s rule: universal_newlines.induct) auto

lemma read_back_hexdigest:
  "map_option (\<lambda>s. py_strip (universal_newlines s)) (decode_utf8 (utf8 (hexdigest bs)))
     = Some (hexdigest bs)"
proof -
  have a: "\<forall>c\<in>set (hexdigest bs). c < 128"
    by (simp add: hexdigest_plain(1))
  have "13 \<notin> set (hexdigest bs)"
    using hexdigest_plain(2) by blast
  then show ?thesis
    by (simp add: utf8_ascii[OF a] decode_utf8_ascii[OF a] universal_newlines_plain
        py_strip_hexdigest)
qed

lemma encode_utf8_ok:
  assumes "\<not> list_ex is_surrogate s"
  shows "encode_utf8 s = Inr (utf8 s)"
  using assms by (simp add: encode_utf8_def)

lemma hexdigest_encodes: "encode_utf8 (hexdigest bs) = Inr (utf8 (hexdigest bs))"
  by (rule encode_utf8_ok) (simp add: list_ex_iff hexdigest_plain(4))

lemma sha256_is_hexdigest:
  assumes "sha256 H block = Inr h"
  shows "encode_utf8 block = Inr (utf8 block)" and "h = hexdigest (H (utf8 block))"
    and "\<not> list_ex is_surrogate block"
  using assms by (auto simp: sha256_def encode_utf8_def split: sum.splits if_splits)

lemma output_entry_encodes:
  assumes "\<not> list_ex is_surrogate name" and "\<not> list_ex is_surrogate val"
  shows "encode_utf8 (output_entry name val) = Inr (utf8 (output_entry name val))"
  using assms
  by (intro encode_utf8_ok) (simp add: output_entry_def py_def is_surrogate_def)

lemma plain_names:
  "\<not> list_ex is_surrogate (py ''changed'')" "\<not> list_ex is_surrogate (py ''url'')"
  "\<not> list_ex is_surrogate (py ''content'')" "\<not> list_ex is_surrogate (py ''true'')"
  "\<not> list_ex is_surrogate (py ''false'')" "\<not> list_ex is_surrogate URL"
  by (simp_all add: py_def URL_def is_surrogate_def)

lemma output_entry_changed_neq:
  "output_entry (py ''changed'') (py ''false'') \<noteq> output_entry (py ''changed'') (py ''true'')"
  "output_entry (py ''changed'') v \<noteq> output_entry (py ''url'') u"
  "output_entry (py ''changed'') v \<noteq> output_entry (py ''content'') u"
  by (simp_all add: output_entry_def py_def)

subsection \<open>What each step needs and what it leaves\<close>

lemma log_fields:
  "http_get (log e w) = http_get w" "refuses (log e w) = refuses w"
  "cut_short (log e w) = cut_short w" "stdout_raises (log e w) = stdout_raises w"
  "flush_fails (log e w) = flush_fails w"
  "environ (log e w) = environ w" "files (log e w) = files w"
  "trace (log e w) = trace w @ [e]"
  by (simp_all add: log_def)

lemma output_path_fields:
  "output_path (log e w) = output_path w"
  "output_path (w\<lparr>files := f\<rparr>) = output_path w"
  by (simp_all add: output_path_def log_def)

lemma and_then_fst_snd:
  "and_then m f w = (case fst (m w) of Inl e \<Rightarrow> (Inl e, snd (m w)) | Inr x \<Rightarrow> f x (snd (m w)))"
  by (simp add: and_then_def split: prod.splits sum.splits)

lemma pure_step_fst_snd: "fst (pure_step r w) = r" "snd (pure_step r w) = w"
  by (simp_all add: pure_step_def)

lemma fetch_html_snd: "snd (fetch_html url w) = log (EvGet url) w"
  by (simp add: fetch_html_def Let_def split: sum.splits)

lemma fetch_html_fst:
  "fst (fetch_html url (log e w)) = fst (fetch_html url w)"
  "fst (fetch_html url (w\<lparr>files := f\<rparr>)) = fst (fetch_html url w)"
  by (simp_all add: fetch_html_def Let_def log_def split: sum.splits)

lemma read_text_fst:
  "fst (read_text path (log e w)) = fst (read_text path w)"
  by (simp add: read_text_def Let_def log_fields split: option.splits)

lemma read_text_snd:
  "snd (read_text HASH_FILE w) = w\<lparr>trace := trace w @ digest_read_events w\<rparr>"
  by (simp add: read_text_def Let_def log_def digest_read_events_def split: option.splits)

lemma read_text_returns:
  assumes "fst (read_text HASH_FILE w) = Inr prev"
  shows "prev = previous_digest w"
  using assms
  by (auto simp: read_text_def Let_def previous_digest_def split: option.splits)

lemma write_text_fst:
  "fst (write_text path c (log e w)) = fst (write_text path c w)"
  "fst (write_text path c (w\<lparr>files := f\<rparr>)) = fst (write_text path c w)"
  "fst (write_text path c (w\<lparr>trace := t\<rparr>)) = fst (write_text path c w)"
  by (simp_all add: write_text_def Let_def log_def split: option.splits sum.splits prod.splits)

lemma write_text_snd:
  "snd (write_text path c w)
     = (log (EvWrite path c) w)\<lparr>files := (files w)(path := left_by_write w path c (files w path))\<rparr>"
  by (simp add: write_text_def left_by_write_def Let_def log_def
      split: option.splits sum.splits prod.splits)

lemma write_text_returns:
  assumes "fst (write_text path c w) = Inr ()"
  shows "left_by_write w path c old = Some (utf8 c)"
  using assms
  by (auto simp: write_text_def left_by_write_def Let_def encode_utf8_def
      split: option.splits sum.splits prod.splits if_splits)

lemma set_github_output_fst:
  "fst (set_github_output name val (log e w)) = fst (set_github_output name val w)"
  "fst (set_github_output name val (w\<lparr>files := f\<rparr>)) = fst (set_github_output name val w)"
  "fst (set_github_output name val (w\<lparr>trace := t\<rparr>)) = fst (set_github_output name val w)"
  by (simp_all add: set_github_output_def Let_def log_def
      split: option.splits sum.splits prod.splits)

lemma set_github_output_off:
  assumes "output_path w = None"
  shows "set_github_output name val w = (Inr (), w)"
  using assms by (simp add: set_github_output_def output_path_def split: option.splits if_splits)

lemma set_github_output_snd:
  assumes "output_path w = Some p"
  shows "snd (set_github_output name val w)
           = (log (EvAppend p (output_entry name val)) w)\<lparr>files :=
                (files w)(p := left_by_append w p (output_entry name val) (files w p))\<rparr>"
proof -
  from assms have env: "environ w (py ''GITHUB_OUTPUT'') = Some p" "p \<noteq> []"
    by (auto simp: output_path_def split: option.splits if_splits)
  show ?thesis
  proof (cases "refuses w AppendOp p")
    case (Some m)
    with env show ?thesis
      by (cases w) (simp add: set_github_output_def left_by_append_def log_def)
  next
    case None
    with env show ?thesis
      by (cases w)
        (simp add: set_github_output_def left_by_append_def log_def Let_def
          split: sum.splits option.splits prod.splits)
  qed
qed

lemma set_github_output_returns:
  assumes "fst (set_github_output name val w) = Inr ()" and "output_path w = Some p"
  shows "left_by_append w p (output_entry name val) old
           = Some ((case old of None \<Rightarrow> [] | Some bs \<Rightarrow> bs) @ utf8 (output_entry name val))"
  using assms
  by (auto simp: set_github_output_def left_by_append_def output_path_def Let_def
      encode_utf8_def split: option.splits sum.splits prod.splits if_splits)

lemma set_github_output_raises:
  assumes "fst (set_github_output name val w) = Inl e"
  shows "\<exists>p. output_path w = Some p"
  using assms
  by (auto simp: set_github_output_def output_path_def split: option.splits if_splits)

lemma print_fst:
  "fst (print line (log e w)) = fst (print line w)"
  "fst (print line (w\<lparr>files := f\<rparr>)) = fst (print line w)"
  "fst (print line (w\<lparr>trace := t\<rparr>)) = fst (print line w)"
  by (simp_all add: print_def log_def split: option.splits)

lemma print_returns:
  assumes "fst (print line w) = Inr ()"
  shows "snd (print line w) = log (Print line) w"
  using assms by (simp add: print_def split: option.splits)

lemma print_raises:
  assumes "fst (print line w) = Inl e"
  shows "snd (print line w) = w"
  using assms by (simp add: print_def split: option.splits)

lemma mkdir_exist_ok_refused:
  assumes "refuses w Mkdir path = Some m"
  shows "mkdir_exist_ok path w = (Inl (OSError m), log (EvMkdir path) w)"
  using assms by (simp add: mkdir_exist_ok_def)

lemma mkdir_exist_ok_done:
  assumes "refuses w Mkdir path = None"
  shows "mkdir_exist_ok path w = (Inr (), log (EvMkdir path) w)"
  using assms by (simp add: mkdir_exist_ok_def)

lemma handler_fields:
  "handler_event (log e w) x = handler_event w x"
  "handler_event (w\<lparr>files := f\<rparr>) x = handler_event w x"
  "handler_event (w\<lparr>trace := t\<rparr>) x = handler_event w x"
  "at_exit c (log e w) = at_exit c w"
  "at_exit c (w\<lparr>files := f\<rparr>) = at_exit c w"
  "at_exit c (w\<lparr>trace := t\<rparr>) = at_exit c w"
  by (simp_all add: handler_event_def at_exit_def log_def)

lemma handler_result:
  "(case print_error e w of
      (Inr u, w') \<Rightarrow> (at_exit 1 w', w')
    | (Inl e', w') \<Rightarrow> (at_exit 1 w', log (Traceback e') w'))
   = (at_exit 1 w, log (handler_event w e) w)"
  by (simp add: print_error_def handler_event_def handler_fields split: option.splits)

lemma steps_keep_stdout:
  "stdout_raises (snd (fetch_html url w)) = stdout_raises w"
  "flush_fails (snd (fetch_html url w)) = flush_fails w"
  "stdout_raises (snd (read_text path w)) = stdout_raises w"
  "flush_fails (snd (read_text path w)) = flush_fails w"
  "stdout_raises (snd (write_text path c w)) = stdout_raises w"
  "flush_fails (snd (write_text path c w)) = flush_fails w"
  "stdout_raises (snd (set_github_output name val w)) = stdout_raises w"
  "flush_fails (snd (set_github_output name val w)) = flush_fails w"
  "stdout_raises (snd (print line w)) = stdout_raises w"
  "flush_fails (snd (print line w)) = flush_fails w"
  "stdout_raises (snd (pure_step r w)) = stdout_raises w"
  "flush_fails (snd (pure_step r w)) = flush_fails w"
  by (simp_all add: fetch_html_def read_text_def write_text_def set_github_output_def
      print_def pure_step_def log_def Let_def split: option.splits sum.splits prod.splits)

lemma main_keeps_stdout:
  "stdout_raises (snd (main get_text H w)) = stdout_raises w"
  "flush_fails (snd (main get_text H w)) = flush_fails w"
  unfolding main_def and_then_fst_snd Let_def
  by (simp_all add: steps_keep_stdout split: sum.splits)

lemma script_after_mkdir:
  assumes "refuses w Mkdir STATE_DIR = None"
  shows "script get_text H w =
           (case fst (main get_text H (log (EvMkdir STATE_DIR) w)) of
              Inr code \<Rightarrow> (at_exit code w, snd (main get_text H (log (EvMkdir STATE_DIR) w)))
            | Inl e \<Rightarrow>
                (at_exit 1 w,
                 log (handler_event w e) (snd (main get_text H (log (EvMkdir STATE_DIR) w)))))"
proof -
  let ?w2 = "snd (main get_text H (log (EvMkdir STATE_DIR) w))"
  have k: "at_exit c ?w2 = at_exit c w" "handler_event ?w2 e = handler_event w e" for c e
    by (simp_all add: at_exit_def handler_event_def main_keeps_stdout log_fields)
  show ?thesis
    unfolding script_def mkdir_exist_ok_done[OF assms]
    by (cases "main get_text H (log (EvMkdir STATE_DIR) w)")
      (use k in \<open>auto simp: handler_result split: sum.splits\<close>)
qed

subsection \<open>The runs, stage by stage\<close>

lemma set_github_output_off_snd:
  assumes "output_path w = None"
  shows "snd (set_github_output name val w) = w"
  using assms by (simp add: set_github_output_off)

lemma left_by_fields:
  "left_by_write (log e w) p c old = left_by_write w p c old"
  "left_by_write (w\<lparr>files := f\<rparr>) p c old = left_by_write w p c old"
  "left_by_write (w\<lparr>trace := t\<rparr>) p c old = left_by_write w p c old"
  "left_by_append (log e w) p c old = left_by_append w p c old"
  "left_by_append (w\<lparr>files := f\<rparr>) p c old = left_by_append w p c old"
  "left_by_append (w\<lparr>trace := t\<rparr>) p c old = left_by_append w p c old"
  by (simp_all add: left_by_write_def left_by_append_def log_def
      cong: option.case_cong sum.case_cong)

lemma fst_fields:
  "fst (read_text path (w\<lparr>trace := t\<rparr>)) = fst (read_text path w)"
  "fst (fetch_html url (w\<lparr>trace := t\<rparr>)) = fst (fetch_html url w)"
  "output_path (w\<lparr>trace := t\<rparr>) = output_path w"
  by (simp_all add: read_text_def fetch_html_def output_path_def Let_def log_def
      split: option.splits sum.splits)

lemma report_stage:
  "(if c then and_then (print (py ''CHANGED: Current social events updated.'')) k
    else and_then (print (py ''No change.'')) k)
   = and_then (print (report_line c)) k"
  by (simp add: report_line_def)

lemmas run_simps = report_stage exit_code_def run_events_def final_files_def main_def and_then_fst_snd
  pure_step_fst_snd fetch_html_fst fetch_html_snd read_text_fst read_text_snd write_text_fst
  write_text_snd set_github_output_fst print_fst fst_fields log_fields output_path_fields
  handler_fields left_by_fields Let_def

lemma run_mkdir_refused:
  assumes "refuses w Mkdir STATE_DIR = Some m"
  shows "exit_code get_text H w = 1"
    and "run_events get_text H w = [EvMkdir STATE_DIR, Traceback (OSError m)]"
    and "final_files get_text H w = files w"
  using assms
  by (simp_all add: exit_code_def run_events_def final_files_def script_def
      mkdir_exist_ok_refused log_fields)

lemma run_fetch_failed:
  assumes "refuses w Mkdir STATE_DIR = None"
    and "fst (fetch_html URL w) = Inl e"
  shows "exit_code get_text H w = at_exit 1 w"
    and "run_events get_text H w = [EvMkdir STATE_DIR, EvGet URL, handler_event w e]"
    and "final_files get_text H w = files w"
  using assms(2) by (simp_all add: script_after_mkdir[OF assms(1)] run_simps)

lemma run_extract_failed:
  assumes "refuses w Mkdir STATE_DIR = None"
    and "fst (fetch_html URL w) = Inr html"
    and "extract_current_social_events get_text html = Inl e"
  shows "exit_code get_text H w = at_exit 1 w"
    and "run_events get_text H w = [EvMkdir STATE_DIR, EvGet URL, handler_event w e]"
    and "final_files get_text H w = files w"
  using assms(2-) by (simp_all add: script_after_mkdir[OF assms(1)] run_simps)

lemma run_digest_failed:
  assumes "refuses w Mkdir STATE_DIR = None"
    and "fst (fetch_html URL w) = Inr html"
    and "extract_current_social_events get_text html = Inr block"
    and "sha256 H block = Inl e"
  shows "exit_code get_text H w = at_exit 1 w"
    and "run_events get_text H w = [EvMkdir STATE_DIR, EvGet URL, handler_event w e]"
    and "final_files get_text H w = files w"
  using assms(2-) by (simp_all add: script_after_mkdir[OF assms(1)] run_simps)

lemma digest_read_events_fields:
  "digest_read_events (log e w) = digest_read_events w"
  "digest_read_events (w\<lparr>trace := t\<rparr>) = digest_read_events w"
  by (simp_all add: digest_read_events_def log_def)

lemma run_read_failed:
  assumes "refuses w Mkdir STATE_DIR = None"
    and "fst (fetch_html URL w) = Inr html"
    and "extract_current_social_events get_text html = Inr block"
    and "sha256 H block = Inr h"
    and "fst (read_text HASH_FILE w) = Inl e"
  shows "exit_code get_text H w = at_exit 1 w"
    and "run_events get_text H w
           = [EvMkdir STATE_DIR, EvGet URL] @ digest_read_events w @ [handler_event w e]"
    and "final_files get_text H w = files w"
  using assms(2-)
  by (simp_all add: script_after_mkdir[OF assms(1)] run_simps digest_read_events_fields)

lemma run_write_hash_failed:
  assumes "refuses w Mkdir STATE_DIR = None"
    and "fst (fetch_html URL w) = Inr html"
    and "extract_current_social_events get_text html = Inr block"
    and "sha256 H block = Inr h"
    and "fst (read_text HASH_FILE w) = Inr (previous_digest w)"
    and "fst (write_text HASH_FILE h w) = Inl e"
  shows "exit_code get_text H w = at_exit 1 w"
    and "run_events get_text H w
           = [EvMkdir STATE_DIR, EvGet URL] @ digest_read_events w
             @ [EvWrite HASH_FILE h, handler_event w e]"
    and "final_files get_text H w
           = (files w)(HASH_FILE := left_by_write w HASH_FILE h (files w HASH_FILE))"
  using assms(2-)
  by (simp_all add: script_after_mkdir[OF assms(1)] run_simps digest_read_events_fields)

lemma run_write_text_failed:
  assumes "refuses w Mkdir STATE_DIR = None"
    and "fst (fetch_html URL w) = Inr html"
    and "extract_current_social_events get_text html = Inr block"
    and "sha256 H block = Inr h"
    and "fst (read_text HASH_FILE w) = Inr (previous_digest w)"
    and "fst (write_text HASH_FILE h w) = Inr ()"
    and "fst (write_text TEXT_FILE block w) = Inl e"
  shows "exit_code get_text H w = at_exit 1 w"
    and "run_events get_text H w
           = [EvMkdir STATE_DIR, EvGet URL] @ digest_read_events w
             @ [EvWrite HASH_FILE h, EvWrite TEXT_FILE block, handler_event w e]"
    and "final_files get_text H w
           = (files w)(HASH_FILE \<mapsto> utf8 h,
                       TEXT_FILE := left_by_write w TEXT_FILE block (files w TEXT_FILE))"
  using assms(2-) state_files_distinct
  by (simp_all add: script_after_mkdir[OF assms(1)] run_simps digest_read_events_fields
      write_text_returns[OF assms(6)])

lemma run_output1_failed:
  assumes "refuses w Mkdir STATE_DIR = None"
    and "fst (fetch_html URL w) = Inr html"
    and "extract_current_social_events get_text html = Inr block"
    and "sha256 H block = Inr h"
    and "fst (read_text HASH_FILE w) = Inr (previous_digest w)"
    and "fst (write_text HASH_FILE h w) = Inr ()"
    and "fst (write_text TEXT_FILE block w) = Inr ()"
    and "fst (set_github_output (py ''changed'')
           (if previous_digest w \<noteq> Some h then py ''true'' else py ''false'') w) = Inl e"
  shows "exit_code get_text H w = at_exit 1 w"
    and "run_events get_text H w
           = [EvMkdir STATE_DIR, EvGet URL] @ digest_read_events w
             @ [EvWrite HASH_FILE h, EvWrite TEXT_FILE block]
             @ take 1 (output_events w (previous_digest w \<noteq> Some h) block)
             @ [handler_event w e]"
    and "final_files get_text H w
           = after_outputs w (take 1 (output_entries (previous_digest w \<noteq> Some h) block))
               (state_written w h block)"
proof -
  from set_github_output_raises[OF assms(8)] obtain p where p: "output_path w = Some p"
    by blast
  note s = script_after_mkdir[OF assms(1)] run_simps digest_read_events_fields
    write_text_returns[OF assms(6)] write_text_returns[OF assms(7)]
    set_github_output_snd[where p = p] output_events_def output_entries_def
    after_outputs_def state_written_def
  show "exit_code get_text H w = at_exit 1 w"
    using assms(2-) p by (simp add: s)
  show "run_events get_text H w
           = [EvMkdir STATE_DIR, EvGet URL] @ digest_read_events w
             @ [EvWrite HASH_FILE h, EvWrite TEXT_FILE block]
             @ take 1 (output_events w (previous_digest w \<noteq> Some h) block)
             @ [handler_event w e]"
    using assms(2-) p by (simp add: s)
  show "final_files get_text H w
           = after_outputs w (take 1 (output_entries (previous_digest w \<noteq> Some h) block))
               (state_written w h block)"
    using assms(2-) p by (simp add: s)
qed

lemma run_output2_failed:
  assumes "refuses w Mkdir STATE_DIR = None"
    and "fst (fetch_html URL w) = Inr html"
    and "extract_current_social_events get_text html = Inr block"
    and "sha256 H block = Inr h"
    and "fst (read_text HASH_FILE w) = Inr (previous_digest w)"
    and "fst (write_text HASH_FILE h w) = Inr ()"
    and "fst (write_text TEXT_FILE block w) = Inr ()"
    and "fst (set_github_output (py ''changed'')
           (if previous_digest w \<noteq> Some h then py ''true'' else py ''false'') w) = Inr ()"
    and "fst (set_github_output (py ''url'') URL w) = Inl e"
  shows "exit_code get_text H w = at_exit 1 w"
    and "run_events get_text H w
           = [EvMkdir STATE_DIR, EvGet URL] @ digest_read_events w
             @ [EvWrite HASH_FILE h, EvWrite TEXT_FILE block]
             @ take 2 (output_events w (previous_digest w \<noteq> Some h) block)
             @ [handler_event w e]"
    and "final_files get_text H w
           = after_outputs w (take 2 (output_entries (previous_digest w \<noteq> Some h) block))
               (state_written w h block)"
proof -
  from set_github_output_raises[OF assms(9)] obtain p where p: "output_path w = Some p"
    by blast
  note s = script_after_mkdir[OF assms(1)] run_simps digest_read_events_fields
    write_text_returns[OF assms(6)] write_text_returns[OF assms(7)]
    set_github_output_snd[where p = p] output_events_def output_entries_def
    after_outputs_def state_written_def
  show "exit_code get_text H w = at_exit 1 w"
    using assms(2-) p by (simp add: s)
  show "run_events get_text H w
           = [EvMkdir STATE_DIR, EvGet URL] @ digest_read_events w
             @ [EvWrite HASH_FILE h, EvWrite TEXT_FILE block]
             @ take 2 (output_events w (previous_digest w \<noteq> Some h) block)
             @ [handler_event w e]"
    using assms(2-) p by (simp add: s)
  show "final_files get_text H w
           = after_outputs w (take 2 (output_entries (previous_digest w \<noteq> Some h) block))
               (state_written w h block)"
    using assms(2-) p by (simp add: s)
qed

lemma run_output3_failed:
  assumes "refuses w Mkdir STATE_DIR = None"
    and "fst (fetch_html URL w) = Inr html"
    and "extract_current_social_events get_text html = Inr block"
    and "sha256 H block = Inr h"
    and "fst (read_text HASH_FILE w) = Inr (previous_digest w)"
    and "fst (write_text HASH_FILE h w) = Inr ()"
    and "fst (write_text TEXT_FILE block w) = Inr ()"
    and "fst (set_github_output (py ''changed'')
           (if previous_digest w \<noteq> Some h then py ''true'' else py ''false'') w) = Inr ()"
    and "fst (set_github_output (py ''url'') URL w) = Inr ()"
    and "fst (set_github_output (py ''content'') block w) = Inl e"
  shows "exit_code get_text H w = at_exit 1 w"
    and "run_events get_text H w
           = [EvMkdir STATE_DIR, EvGet URL] @ digest_read_events w
             @ [EvWrite HASH_FILE h, EvWrite TEXT_FILE block]
             @ output_events w (previous_digest w \<noteq> Some h) block
             @ [handler_event w e]"
    and "final_files get_text H w
           = after_outputs w (output_entries (previous_digest w \<noteq> Some h) block)
               (state_written w h block)"
proof -
  from set_github_output_raises[OF assms(10)] obtain p where p: "output_path w = Some p"
    by blast
  note s = script_after_mkdir[OF assms(1)] run_simps digest_read_events_fields
    write_text_returns[OF assms(6)] write_text_returns[OF assms(7)]
    set_github_output_snd[where p = p] output_events_def output_entries_def
    after_outputs_def state_written_def
  show "exit_code get_text H w = at_exit 1 w"
    using assms(2-) p by (simp add: s)
  show "run_events get_text H w
           = [EvMkdir STATE_DIR, EvGet URL] @ digest_read_events w
             @ [EvWrite HASH_FILE h, EvWrite TEXT_FILE block]
             @ output_events w (previous_digest w \<noteq> Some h) block
             @ [handler_event w e]"
    using assms(2-) p by (simp add: s)
  show "final_files get_text H w
           = after_outputs w (output_entries (previous_digest w \<noteq> Some h) block)
               (state_written w h block)"
    using assms(2-) p by (simp add: s)
qed

lemma run_print_failed:
  assumes "refuses w Mkdir STATE_DIR = None"
    and "fst (fetch_html URL w) = Inr html"
    and "extract_current_social_events get_text html = Inr block"
    and "sha256 H block = Inr h"
    and "fst (read_text HASH_FILE w) = Inr (previous_digest w)"
    and "fst (write_text HASH_FILE h w) = Inr ()"
    and "fst (write_text TEXT_FILE block w) = Inr ()"
    and "fst (set_github_output (py ''changed'')
           (if previous_digest w \<noteq> Some h then py ''true'' else py ''false'') w) = Inr ()"
    and "fst (set_github_output (py ''url'') URL w) = Inr ()"
    and "fst (set_github_output (py ''content'') block w) = Inr ()"
    and "fst (print (report_line (previous_digest w \<noteq> Some h)) w) = Inl e"
  shows "exit_code get_text H w = at_exit 1 w"
    and "run_events get_text H w
           = [EvMkdir STATE_DIR, EvGet URL] @ digest_read_events w
             @ [EvWrite HASH_FILE h, EvWrite TEXT_FILE block]
             @ output_events w (previous_digest w \<noteq> Some h) block
             @ [handler_event w e]"
    and "final_files get_text H w
           = after_outputs w (output_entries (previous_digest w \<noteq> Some h) block)
               (state_written w h block)"
proof -
  note s = script_after_mkdir[OF assms(1)] run_simps digest_read_events_fields
    write_text_returns[OF assms(6)] write_text_returns[OF assms(7)]
    output_events_def output_entries_def after_outputs_def state_written_def
    print_raises
  show "exit_code get_text H w = at_exit 1 w"
    using assms(2-)
    by (cases "output_path w")
      (simp_all add: s set_github_output_off_snd set_github_output_snd)
  show "run_events get_text H w
           = [EvMkdir STATE_DIR, EvGet URL] @ digest_read_events w
             @ [EvWrite HASH_FILE h, EvWrite TEXT_FILE block]
             @ output_events w (previous_digest w \<noteq> Some h) block
             @ [handler_event w e]"
    using assms(2-)
    by (cases "output_path w")
      (simp_all add: s set_github_output_off_snd set_github_output_snd)
  show "final_files get_text H w
           = after_outputs w (output_entries (previous_digest w \<noteq> Some h) block)
               (state_written w h block)"
    using assms(2-)
    by (cases "output_path w")
      (simp_all add: s set_github_output_off_snd set_github_output_snd)
qed

lemma run_success:
  assumes "refuses w Mkdir STATE_DIR = None"
    and "fst (fetch_html URL w) = Inr html"
    and "extract_current_social_events get_text html = Inr block"
    and "sha256 H block = Inr h"
    and "fst (read_text HASH_FILE w) = Inr (previous_digest w)"
    and "fst (write_text HASH_FILE h w) = Inr ()"
    and "fst (write_text TEXT_FILE block w) = Inr ()"
    and "fst (set_github_output (py ''changed'')
           (if previous_digest w \<noteq> Some h then py ''true'' else py ''false'') w) = Inr ()"
    and "fst (set_github_output (py ''url'') URL w) = Inr ()"
    and "fst (set_github_output (py ''content'') block w) = Inr ()"
    and "fst (print (report_line (previous_digest w \<noteq> Some h)) w) = Inr ()"
  shows "exit_code get_text H w = at_exit 0 w"
    and "run_events get_text H w
           = [EvMkdir STATE_DIR, EvGet URL] @ digest_read_events w
             @ [EvWrite HASH_FILE h, EvWrite TEXT_FILE block]
             @ output_events w (previous_digest w \<noteq> Some h) block
             @ [Print (report_line (previous_digest w \<noteq> Some h))]"
    and "final_files get_text H w
           = after_outputs w (output_entries (previous_digest w \<noteq> Some h) block)
               (state_written w h block)"
proof -
  note s = script_after_mkdir[OF assms(1)] run_simps digest_read_events_fields
    write_text_returns[OF assms(6)] write_text_returns[OF assms(7)]
    output_events_def output_entries_def after_outputs_def state_written_def
    print_returns
  show "exit_code get_text H w = at_exit 0 w"
    using assms(2-)
    by (cases "output_path w")
      (simp_all add: s set_github_output_off_snd set_github_output_snd)
  show "run_events get_text H w
           = [EvMkdir STATE_DIR, EvGet URL] @ digest_read_events w
             @ [EvWrite HASH_FILE h, EvWrite TEXT_FILE block]
             @ output_events w (previous_digest w \<noteq> Some h) block
             @ [Print (report_line (previous_digest w \<noteq> Some h))]"
    using assms(2-)
    by (cases "output_path w")
      (simp_all add: s set_github_output_off_snd set_github_output_snd)
  show "final_files get_text H w
           = after_outputs w (output_entries (previous_digest w \<noteq> Some h) block)
               (state_written w h block)"
    using assms(2-)
    by (cases "output_path w")
      (simp_all add: s set_github_output_off_snd set_github_output_snd)
qed

lemma run_cases [case_names mkdir fetch extraction digest read write_hash write_text
    output1 output2 output3 print success]:
  obtains m where "refuses w Mkdir STATE_DIR = Some m"
  | e where "refuses w Mkdir STATE_DIR = None" "fst (fetch_html URL w) = Inl e"
  | html e where "refuses w Mkdir STATE_DIR = None" "fst (fetch_html URL w) = Inr html"
      "extract_current_social_events get_text html = Inl e"
  | html block e where "refuses w Mkdir STATE_DIR = None" "fst (fetch_html URL w) = Inr html"
      "extract_current_social_events get_text html = Inr block" "sha256 H block = Inl e"
  | html block h e where "refuses w Mkdir STATE_DIR = None"
      "fst (fetch_html URL w) = Inr html"
      "extract_current_social_events get_text html = Inr block" "sha256 H block = Inr h"
      "fst (read_text HASH_FILE w) = Inl e"
  | html block h e where "refuses w Mkdir STATE_DIR = None"
      "fst (fetch_html URL w) = Inr html"
      "extract_current_social_events get_text html = Inr block" "sha256 H block = Inr h"
      "fst (read_text HASH_FILE w) = Inr (previous_digest w)"
      "fst (write_text HASH_FILE h w) = Inl e"
  | html block h e where "refuses w Mkdir STATE_DIR = None"
      "fst (fetch_html URL w) = Inr html"
      "extract_current_social_events get_text html = Inr block" "sha256 H block = Inr h"
      "fst (read_text HASH_FILE w) = Inr (previous_digest w)"
      "fst (write_text HASH_FILE h w) = Inr ()"
      "fst (write_text TEXT_FILE block w) = Inl e"
  | html block h e where "refuses w Mkdir STATE_DIR = None"
      "fst (fetch_html URL w) = Inr html"
      "extract_current_social_events get_text html = Inr block" "sha256 H block = Inr h"
      "fst (read_text HASH_FILE w) = Inr (previous_digest w)"
      "fst (write_text HASH_FILE h w) = Inr ()"
      "fst (write_text TEXT_FILE block w) = Inr ()"
      "fst (set_github_output (py ''changed'')
         (if previous_digest w \<noteq> Some h then py ''true'' else py ''false'') w) = Inl e"
  | html block h e where "refuses w Mkdir STATE_DIR = None"
      "fst (fetch_html URL w) = Inr html"
      "extract_current_social_events get_text html = Inr block" "sha256 H block = Inr h"
      "fst (read_text HASH_FILE w) = Inr (previous_digest w)"
      "fst (write_text HASH_FILE h w) = Inr ()"
      "fst (write_text TEXT_FILE block w) = Inr ()"
      "fst (set_github_output (py ''changed'')
         (if previous_digest w \<noteq> Some h then py ''true'' else py ''false'') w) = Inr ()"
      "fst (set_github_output (py ''url'') URL w) = Inl e"
  | html block h e where "refuses w Mkdir STATE_DIR = None"
      "fst (fetch_html URL w) = Inr html"
      "extract_current_social_events get_text html = Inr block" "sha256 H block = Inr h"
      "fst (read_text HASH_FILE w) = Inr (previous_digest w)"
      "fst (write_text HASH_FILE h w) = Inr ()"
      "fst (write_text TEXT_FILE block w) = Inr ()"
      "fst (set_github_output (py ''changed'')
         (if previous_digest w \<noteq> Some h then py ''true'' else py ''false'') w) = Inr ()"
      "fst (set_github_output (py ''url'') URL w) = Inr ()"
      "fst (set_github_output (py ''content'') block w) = Inl e"
  | html block h e where "refuses w Mkdir STATE_DIR = None"
      "fst (fetch_html URL w) = Inr html"
      "extract_current_social_events get_text html = Inr block" "sha256 H block = Inr h"
      "fst (read_text HASH_FILE w) = Inr (previous_digest w)"
      "fst (write_text HASH_FILE h w) = Inr ()"
      "fst (write_text TEXT_FILE block w) = Inr ()"
      "fst (set_github_output (py ''changed'')
         (if previous_digest w \<noteq> Some h then py ''true'' else py ''false'') w) = Inr ()"
      "fst (set_github_output (py ''url'') URL w) = Inr ()"
      "fst (set_github_output (py ''content'') block w) = Inr ()"
      "fst (print (report_line (previous_digest w \<noteq> Some h)) w) = Inl e"
  | html block h where "refuses w Mkdir STATE_DIR = None"
      "fst (fetch_html URL w) = Inr html"
      "extract_current_social_events get_text html = Inr block" "sha256 H block = Inr h"
      "fst (read_text HASH_FILE w) = Inr (previous_digest w)"
      "fst (write_text HASH_FILE h w) = Inr ()"
      "fst (write_text TEXT_FILE block w) = Inr ()"
      "fst (set_github_output (py ''changed'')
         (if previous_digest w \<noteq> Some h then py ''true'' else py ''false'') w) = Inr ()"
      "fst (set_github_output (py ''url'') URL w) = Inr ()"
      "fst (set_github_output (py ''content'') block w) = Inr ()"
      "fst (print (report_line (previous_digest w \<noteq> Some h)) w) = Inr ()"
proof (cases "refuses w Mkdir STATE_DIR")
  case (Some m)
  then show ?thesis by (rule that(1))
next
  case mk: None
  show ?thesis
  proof (cases "fst (fetch_html URL w)")
    case (Inl e)
    with mk show ?thesis by (rule that(2))
  next
    case fe: (Inr html)
    show ?thesis
    proof (cases "extract_current_social_events get_text html")
      case (Inl e)
      with mk fe show ?thesis by (rule that(3))
    next
      case ex: (Inr block)
      show ?thesis
      proof (cases "sha256 H block")
        case (Inl e)
        with mk fe ex show ?thesis by (rule that(4))
      next
        case dg: (Inr h)
        show ?thesis
        proof (cases "fst (read_text HASH_FILE w)")
          case (Inl e)
          with mk fe ex dg show ?thesis by (rule that(5))
        next
          case (Inr prev)
          with read_text_returns[OF this]
          have rd: "fst (read_text HASH_FILE w) = Inr (previous_digest w)" by simp
          show ?thesis
          proof (cases "fst (write_text HASH_FILE h w)")
            case (Inl e)
            with mk fe ex dg rd show ?thesis by (rule that(6))
          next
            case (Inr u)
            then have wh: "fst (write_text HASH_FILE h w) = Inr ()" by simp
            show ?thesis
            proof (cases "fst (write_text TEXT_FILE block w)")
              case (Inl e)
              with mk fe ex dg rd wh show ?thesis by (rule that(7))
            next
              case (Inr u)
              then have wt: "fst (write_text TEXT_FILE block w) = Inr ()" by simp
              let ?c = "previous_digest w \<noteq> Some h"
              show ?thesis
              proof (cases "fst (set_github_output (py ''changed'')
                     (if ?c then py ''true'' else py ''false'') w)")
                case (Inl e)
                with mk fe ex dg rd wh wt show ?thesis by (rule that(8))
              next
                case (Inr u)
                then have o1: "fst (set_github_output (py ''changed'')
                     (if ?c then py ''true'' else py ''false'') w) = Inr ()" by simp
                show ?thesis
                proof (cases "fst (set_github_output (py ''url'') URL w)")
                  case (Inl e)
                  with mk fe ex dg rd wh wt o1 show ?thesis by (rule that(9))
                next
                  case (Inr u)
                  then have o2: "fst (set_github_output (py ''url'') URL w) = Inr ()" by simp
                  show ?thesis
                  proof (cases "fst (set_github_output (py ''content'') block w)")
                    case (Inl e)
                    with mk fe ex dg rd wh wt o1 o2 show ?thesis by (rule that(10))
                  next
                    case (Inr u)
                    then have o3: "fst (set_github_output (py ''content'') block w) = Inr ()"
                      by simp
                    show ?thesis
                    proof (cases "fst (print (report_line ?c) w)")
                      case (Inl e)
                      with mk fe ex dg rd wh wt o1 o2 o3 show ?thesis by (rule that(11))
                    next
                      case (Inr u)
                      then have "fst (print (report_line ?c) w) = Inr ()" by simp
                      with mk fe ex dg rd wh wt o1 o2 o3 show ?thesis by (rule that(12))
                    qed
                  qed
                qed
              qed
            qed
          qed
        qed
      qed
    qed
  qed
qed

subsection \<open>The files after the outputs\<close>

lemma after_outputs_elsewhere:
  assumes "output_path w \<noteq> Some q"
  shows "after_outputs w es fs q = fs q"
proof (cases "output_path w")
  case None
  then show ?thesis by (simp add: after_outputs_def)
next
  case (Some p)
  with assms have "p \<noteq> q" by simp
  then have "fold (\<lambda>entry fs'. fs'(p := left_by_append w p entry (fs' p))) es fs q = fs q"
    by (induction es arbitrary: fs) simp_all
  with Some show ?thesis by (simp add: after_outputs_def)
qed

lemma after_outputs_off:
  assumes "output_path w = None"
  shows "after_outputs w es fs = fs"
  using assms by (simp add: after_outputs_def)

lemma after_outputs_done:
  assumes "output_path w = Some p"
    and "fst (set_github_output (py ''changed'') v w) = Inr ()"
    and "fst (set_github_output (py ''url'') URL w) = Inr ()"
    and "fst (set_github_output (py ''content'') block w) = Inr ()"
  shows "after_outputs w
           [output_entry (py ''changed'') v, output_entry (py ''url'') URL,
            output_entry (py ''content'') block] fs
         = appended fs p
             (utf8 (concat [output_entry (py ''changed'') v, output_entry (py ''url'') URL,
                            output_entry (py ''content'') block]))"
  using assms(1)
  by (simp add: after_outputs_def appended_def utf8_append
      set_github_output_returns[OF assms(2) assms(1)]
      set_github_output_returns[OF assms(3) assms(1)]
      set_github_output_returns[OF assms(4) assms(1)]
      split: option.splits)

subsection \<open>Reads and writes among the events\<close>

lemma no_write_in_reads: "filter is_write_event (digest_read_events w) = []"
  by (simp add: digest_read_events_def)

lemma no_write_in_outputs: "filter is_write_event (output_events w c block) = []"
  by (simp add: output_events_def output_entries_def split: option.splits)

subsection \<open>The sample page and the sample digest, evaluated\<close>

lemma sample_pages:
  "sample_get_text sample_html = Inr sample_flat"
  "sample_get_text adjacent_html = Inr adjacent_flat"
  "sample_get_text news_html = Inr news_flat"
  "sample_get_text swapped_html = Inr swapped_flat"
  "sample_get_text (py ''Current social events: Concert on Friday'')
     = Inr (py ''Current social events: Concert on Friday'')"
  by (simp_all add: sample_get_text_def sample_html_def adjacent_html_def news_html_def
      swapped_html_def py_def)

lemma sample_extract:
  "extract_current_social_events sample_get_text sample_html
     = Inr (py ''Concert'' @ [LF, LF] @ py ''Friday'')"
  unfolding extract_current_social_events_def sample_pages
  by (simp add: sample_flat_def py_contains_def py_index_def
      py_slice_def py_strip_def is_space_def is_hws_def match_hws_nl_def match_nl3_def
      START_MARKER_def END_MARKER_def py_def)

lemma sample_sha256:
  "sha256 sample_digest (py ''Concert'' @ [LF, LF] @ py ''Friday'') = Inr (py ''0fab'')"
  by (simp add: sha256_def encode_utf8_def utf8_def utf8_char_def hexdigest_def hex_digit_def
      sample_digest_def is_surrogate_def py_def)

lemma sample_digest_is_hexdigest: "py ''0fab'' = hexdigest [15, 171]"
  by (simp add: hexdigest_def hex_digit_def py_def)


subsection \<open>Worlds in which the operating system accepts everything\<close>

lemma obliging_world:
  assumes "refuses w = (\<lambda>_ _. None)" and "cut_short w = (\<lambda>_ _. None)"
    and "stdout_raises w = (\<lambda>_. None)"
  shows "encode_utf8 c = Inr bs \<Longrightarrow> fst (write_text p c w) = Inr ()"
    and "encode_utf8 (output_entry n v) = Inr bs' \<Longrightarrow> fst (set_github_output n v w) = Inr ()"
    and "fst (print l w) = Inr ()"
    and "handler_event w e = PrintError e"
    and "files w HASH_FILE = None \<Longrightarrow> fst (read_text HASH_FILE w) = Inr None"
    and "files w HASH_FILE = Some (utf8 (hexdigest ds))
           \<Longrightarrow> fst (read_text HASH_FILE w) = Inr (Some (hexdigest ds))"
    and "refuses w Mkdir STATE_DIR = None"
  using assms read_back_hexdigest[of ds]
  by (auto simp: write_text_def set_github_output_def print_def handler_event_def
      read_text_def Let_def split: option.splits)

lemma previous_digest_values:
  "files w HASH_FILE = None \<Longrightarrow> previous_digest w = None"
  "files w HASH_FILE = Some (utf8 (hexdigest ds)) \<Longrightarrow> previous_digest w = Some (hexdigest ds)"
  using read_back_hexdigest[of ds] by (simp_all add: previous_digest_def)

lemma sample_success:
  assumes "refuses w = (\<lambda>_ _. None)" and "cut_short w = (\<lambda>_ _. None)"
    and "stdout_raises w = (\<lambda>_. None)"
    and "fst (fetch_html URL w) = Inr sample_html"
    and "files w HASH_FILE = None \<or> files w HASH_FILE = Some (utf8 (py ''0fab''))"
  shows "exit_code sample_get_text sample_digest w = at_exit 0 w"
    and "run_events sample_get_text sample_digest w
           = [EvMkdir STATE_DIR, EvGet URL] @ digest_read_events w
             @ [EvWrite HASH_FILE (py ''0fab''), EvWrite TEXT_FILE sample_block]
             @ output_events w (previous_digest w \<noteq> Some (py ''0fab'')) sample_block
             @ [Print (report_line (previous_digest w \<noteq> Some (py ''0fab'')))]"
    and "final_files sample_get_text sample_digest w
           = after_outputs w (output_entries (previous_digest w \<noteq> Some (py ''0fab'')) sample_block)
               (state_written w (py ''0fab'') sample_block)"
    and "fst (set_github_output (py ''changed'')
           (if previous_digest w \<noteq> Some (py ''0fab'') then py ''true'' else py ''false'') w)
           = Inr ()"
    and "fst (set_github_output (py ''url'') URL w) = Inr ()"
    and "fst (set_github_output (py ''content'') sample_block w) = Inr ()"
proof -
  note o = obliging_world[OF assms(1-3)]
  have x: "extract_current_social_events sample_get_text sample_html = Inr sample_block"
    using sample_extract by (simp add: sample_block_def)
  have d: "sha256 sample_digest sample_block = Inr (py ''0fab'')"
    using sample_sha256 by (simp add: sample_block_def)
  note s = sha256_is_hexdigest[OF d]
  have rd: "fst (read_text HASH_FILE w) = Inr (previous_digest w)"
    using assms(5) o(5) o(6)[where ds = "[15, 171]"]
      previous_digest_values(1)[of w] previous_digest_values(2)[where w = w and ds = "[15, 171]"]
    by (auto simp: sample_digest_is_hexdigest)
  have wh: "fst (write_text HASH_FILE (py ''0fab'') w) = Inr ()"
    by (rule o(1)[OF hexdigest_encodes[of "[15, 171]", folded sample_digest_is_hexdigest]])
  have wt: "fst (write_text TEXT_FILE sample_block w) = Inr ()"
    by (rule o(1)[OF s(1)])
  show o1: "fst (set_github_output (py ''changed'')
           (if previous_digest w \<noteq> Some (py ''0fab'') then py ''true'' else py ''false'') w)
           = Inr ()"
    by (rule o(2)[OF output_entry_encodes]) (simp_all add: plain_names)
  show o2: "fst (set_github_output (py ''url'') URL w) = Inr ()"
    by (rule o(2)[OF output_entry_encodes]) (simp_all add: plain_names)
  show o3: "fst (set_github_output (py ''content'') sample_block w) = Inr ()"
    by (rule o(2)[OF output_entry_encodes]) (simp_all add: plain_names s(3))
  note r = run_success[OF o(7) assms(4) x d rd wh wt o1 o2 o3 o(3)]
  show "exit_code sample_get_text sample_digest w = at_exit 0 w"
    by (rule r(1))
  show "run_events sample_get_text sample_digest w
           = [EvMkdir STATE_DIR, EvGet URL] @ digest_read_events w
             @ [EvWrite HASH_FILE (py ''0fab''), EvWrite TEXT_FILE sample_block]
             @ output_events w (previous_digest w \<noteq> Some (py ''0fab'')) sample_block
             @ [Print (report_line (previous_digest w \<noteq> Some (py ''0fab'')))]"
    by (rule r(2))
  show "final_files sample_get_text sample_digest w
           = after_outputs w (output_entries (previous_digest w \<noteq> Some (py ''0fab'')) sample_block)
               (state_written w (py ''0fab'') sample_block)"
    by (rule r(3))
qed

lemma sample_world_fields:
  "refuses sample_world = (\<lambda>_ _. None)"
  "cut_short sample_world = (\<lambda>_ _. None)"
  "stdout_raises sample_world = (\<lambda>_. None)"
  "fst (fetch_html URL sample_world) = Inr sample_html"
  "files sample_world = Map.empty"
  "output_path sample_world = Some (py ''out.txt'')"
  "flush_fails sample_world = False"
  by (simp_all add: sample_world_def output_path_def py_def fetch_html_def
      raise_for_status_def Let_def)

lemma second_run_world_fields:
  "refuses second_run_world = (\<lambda>_ _. None)"
  "cut_short second_run_world = (\<lambda>_ _. None)"
  "stdout_raises second_run_world = (\<lambda>_. None)"
  "fst (fetch_html URL second_run_world) = Inr sample_html"
  "files second_run_world = [HASH_FILE \<mapsto> utf8 (py ''0fab''), TEXT_FILE \<mapsto> utf8 sample_block]"
  "output_path second_run_world = Some (py ''out.txt'')"
  "flush_fails second_run_world = False"
  "files second_run_world HASH_FILE = Some (utf8 (py ''0fab''))"
  "files second_run_world TEXT_FILE = Some (utf8 sample_block)"
  using state_files_distinct
  by (simp_all add: second_run_world_def sample_world_def output_path_def py_def
      fetch_html_def raise_for_status_def Let_def)

lemma stale_text_world_fields:
  "refuses stale_text_world = (\<lambda>_ _. None)"
  "cut_short stale_text_world = (\<lambda>_ _. None)"
  "stdout_raises stale_text_world = (\<lambda>_. None)"
  "fst (fetch_html URL stale_text_world) = Inr sample_html"
  "output_path stale_text_world = Some (py ''out.txt'')"
  "flush_fails stale_text_world = False"
  "files stale_text_world HASH_FILE = Some (utf8 (py ''0fab''))"
  "files stale_text_world TEXT_FILE = Some (utf8 (py ''Old text''))"
  using state_files_distinct
  by (simp_all add: stale_text_world_def sample_world_def output_path_def py_def
      fetch_html_def raise_for_status_def Let_def)

lemma out_txt_is_no_state_file:
  "py ''out.txt'' \<noteq> HASH_FILE" "py ''out.txt'' \<noteq> TEXT_FILE"
  by (simp_all add: HASH_FILE_def TEXT_FILE_def py_def)

lemma read_text_returned_events:
  assumes "fst (read_text HASH_FILE w) = Inr prev"
  shows "digest_read_events w
           = EvExists HASH_FILE # (if files w HASH_FILE = None then [] else [EvRead HASH_FILE])"
  using assms
  by (auto simp: read_text_def digest_read_events_def Let_def split: option.splits)

lemma digest_read_events_are_reads:
  "filter is_read_event (digest_read_events w) = digest_read_events w"
  "\<forall>e\<in>set (digest_read_events w). e = EvExists HASH_FILE \<or> e = EvRead HASH_FILE"
  "takeWhile (\<lambda>e. \<not> is_write_event e) (digest_read_events w @ EvWrite p c # rest)
     = digest_read_events w"
  by (simp_all add: digest_read_events_def)

lemma output_events_are_no_reads:
  "filter is_read_event (output_events w c block) = []"
  "filter is_read_event (take k (output_events w c block)) = []"
proof -
  show a: "filter is_read_event (output_events w c block) = []"
    by (simp add: output_events_def output_entries_def split: option.splits)
  then show "filter is_read_event (take k (output_events w c block)) = []"
    by (auto simp: filter_empty_conv dest: in_set_takeD)
qed

lemma handler_event_is_no_read: "\<not> is_read_event (handler_event w e)"
  by (simp add: handler_event_def split: option.splits)

lemma reads_only_on_digest_file:
  assumes "\<forall>e\<in>set evs. \<not> is_read_event e"
  shows "\<forall>e\<in>set ([EvMkdir STATE_DIR, EvGet URL] @ digest_read_events w @ evs).
           is_read_event e \<longrightarrow> e = EvExists HASH_FILE \<or> e = EvRead HASH_FILE"
  using assms digest_read_events_are_reads(2)[of w] by auto

lemma report_lines_distinct:
  "py ''CHANGED: Current social events updated.'' \<noteq> py ''No change.''"
  by (simp add: py_def)

lemma handler_event_is_no_report:
  "handler_event w e \<noteq> Print line" "handler_event w e \<noteq> EvAppend p entry"
  by (simp_all add: handler_event_def split: option.splits)

lemma digest_read_events_are_no_reports:
  "Print line \<notin> set (digest_read_events w)" "EvAppend p entry \<notin> set (digest_read_events w)"
  by (simp_all add: digest_read_events_def)

lemma output_events_content:
  "Print line \<notin> set (output_events w c block)"
  "Print line \<notin> set (take k (output_events w c block))"
  "EvAppend p (output_entry (py ''changed'') (if c then py ''false'' else py ''true''))
     \<notin> set (output_events w c block)"
  "EvAppend p (output_entry (py ''changed'') (if c then py ''false'' else py ''true''))
     \<notin> set (take k (output_events w c block))"
  "output_path w = Some p \<Longrightarrow>
     EvAppend p (output_entry (py ''changed'') (if c then py ''true'' else py ''false''))
       \<in> set (output_events w c block)"
proof -
  show a: "Print line \<notin> set (output_events w c block)"
    by (auto simp: output_events_def output_entries_def split: option.splits)
  show b: "EvAppend p (output_entry (py ''changed'') (if c then py ''false'' else py ''true''))
     \<notin> set (output_events w c block)"
    using output_entry_changed_neq output_entry_changed_neq(1)[symmetric]
    by (auto simp: output_events_def output_entries_def split: option.splits)
  from a show "Print line \<notin> set (take k (output_events w c block))"
    by (auto dest: in_set_takeD)
  from b show "EvAppend p (output_entry (py ''changed'') (if c then py ''false'' else py ''true''))
     \<notin> set (take k (output_events w c block))"
    by (auto dest: in_set_takeD)
  show "output_path w = Some p \<Longrightarrow>
     EvAppend p (output_entry (py ''changed'') (if c then py ''true'' else py ''false''))
       \<in> set (output_events w c block)"
    by (simp add: output_events_def output_entries_def)
qed

subsection \<open>Steps that cannot tell what the text file holds\<close>

lemma differ_in_text_file_iff:
  "differ_in_text_file w w' \<longleftrightarrow>
     http_get w' = http_get w \<and> refuses w' = refuses w \<and> cut_short w' = cut_short w \<and>
     stdout_raises w' = stdout_raises w \<and> flush_fails w' = flush_fails w \<and>
     environ w' = environ w \<and> trace w' = trace w \<and>
     (\<forall>p. p \<noteq> TEXT_FILE \<longrightarrow> files w' p = files w p)"
  by (cases w; cases w') (auto simp: differ_in_text_file_def fun_eq_iff)

lemma differ_in_text_file_log:
  assumes "differ_in_text_file w w'"
  shows "differ_in_text_file (log e w) (log e w')"
  using assms by (simp add: differ_in_text_file_iff log_fields)

lemma blind_fetch_html: "blind_to_text_file (fetch_html url)"
  unfolding blind_to_text_file_def
  by (auto simp: differ_in_text_file_iff fetch_html_def Let_def log_fields split: sum.splits)

lemma blind_pure_step: "blind_to_text_file (pure_step r)"
  by (simp add: blind_to_text_file_def pure_step_def)

lemma blind_read_text: "blind_to_text_file (read_text HASH_FILE)"
  unfolding blind_to_text_file_def
proof (intro allI impI)
  fix w w'
  assume d: "differ_in_text_file w w'"
  then have "files w' HASH_FILE = files w HASH_FILE" "refuses w' = refuses w"
    using state_files_distinct by (simp_all add: differ_in_text_file_iff)
  moreover have "differ_in_text_file (log a (log b w)) (log a (log b w'))" for a b
    by (intro differ_in_text_file_log d)
  ultimately show "fst (read_text HASH_FILE w') = fst (read_text HASH_FILE w) \<and>
      differ_in_text_file (snd (read_text HASH_FILE w)) (snd (read_text HASH_FILE w'))"
    using differ_in_text_file_log[OF d]
    by (simp add: read_text_def Let_def split: option.splits)
qed

lemma blind_write_text: "blind_to_text_file (write_text path c)"
  unfolding blind_to_text_file_def
  by (auto simp: differ_in_text_file_iff write_text_def Let_def log_fields
      split: option.splits sum.splits prod.splits)

lemma blind_set_github_output: "blind_to_text_file (set_github_output name val)"
  unfolding blind_to_text_file_def
  by (auto simp: differ_in_text_file_iff set_github_output_def Let_def log_fields
      split: option.splits sum.splits prod.splits)

lemma blind_print: "blind_to_text_file (print line)"
  unfolding blind_to_text_file_def
  by (auto simp: differ_in_text_file_iff print_def log_fields split: option.splits)

lemma blind_print_error: "blind_to_text_file (print_error e)"
  unfolding blind_to_text_file_def
  by (auto simp: differ_in_text_file_iff print_error_def log_fields split: option.splits)

lemma blind_mkdir_exist_ok: "blind_to_text_file (mkdir_exist_ok path)"
  unfolding blind_to_text_file_def
  by (auto simp: differ_in_text_file_iff mkdir_exist_ok_def Let_def log_fields
      split: option.splits)

lemma blind_and_then:
  assumes "blind_to_text_file m" and "\<And>x. blind_to_text_file (f x)"
  shows "blind_to_text_file (and_then m f)"
  unfolding blind_to_text_file_def
proof (intro allI impI)
  fix w w'
  assume d: "differ_in_text_file w w'"
  from assms(1) d have m: "fst (m w') = fst (m w)"
    "differ_in_text_file (snd (m w)) (snd (m w'))"
    by (simp_all add: blind_to_text_file_def)
  show "fst (and_then m f w') = fst (and_then m f w) \<and>
        differ_in_text_file (snd (and_then m f w)) (snd (and_then m f w'))"
  proof (cases "fst (m w)")
    case (Inl e)
    with m show ?thesis by (simp add: and_then_fst_snd)
  next
    case (Inr x)
    from assms(2)[of x] m(2)
    have "fst (f x (snd (m w'))) = fst (f x (snd (m w)))"
      "differ_in_text_file (snd (f x (snd (m w)))) (snd (f x (snd (m w'))))"
      by (simp_all add: blind_to_text_file_def)
    with Inr m(1) show ?thesis by (simp add: and_then_fst_snd)
  qed
qed

lemma blind_main: "blind_to_text_file (main get_text H)"
  unfolding main_def Let_def
  by (intro blind_and_then blind_fetch_html blind_pure_step blind_read_text blind_write_text
      blind_set_github_output)
    (simp add: blind_and_then blind_print blind_pure_step)

lemma script_fst_snd:
  "script get_text H w =
     (case fst (mkdir_exist_ok STATE_DIR w) of
        Inl e \<Rightarrow> (1, log (Traceback e) (snd (mkdir_exist_ok STATE_DIR w)))
      | Inr u \<Rightarrow>
          (case fst (main get_text H (snd (mkdir_exist_ok STATE_DIR w))) of
             Inr code \<Rightarrow>
               (at_exit code (snd (main get_text H (snd (mkdir_exist_ok STATE_DIR w)))),
                snd (main get_text H (snd (mkdir_exist_ok STATE_DIR w))))
           | Inl e \<Rightarrow>
               (case fst (print_error e (snd (main get_text H (snd (mkdir_exist_ok STATE_DIR w))))) of
                  Inr u \<Rightarrow>
                    (at_exit 1 (snd (print_error e
                        (snd (main get_text H (snd (mkdir_exist_ok STATE_DIR w)))))),
                     snd (print_error e (snd (main get_text H (snd (mkdir_exist_ok STATE_DIR w))))))
                | Inl e' \<Rightarrow>
                    (at_exit 1 (snd (print_error e
                        (snd (main get_text H (snd (mkdir_exist_ok STATE_DIR w)))))),
                     log (Traceback e')
                       (snd (print_error e
                          (snd (main get_text H (snd (mkdir_exist_ok STATE_DIR w)))))))))) "
  by (auto simp: script_def split: prod.splits sum.splits)

lemma script_is_blind:
  assumes d: "differ_in_text_file w w'"
  shows "fst (script get_text H w') = fst (script get_text H w)"
    and "differ_in_text_file (snd (script get_text H w)) (snd (script get_text H w'))"
proof -
  let ?k = "mkdir_exist_ok STATE_DIR"
  from blind_mkdir_exist_ok[of STATE_DIR] d have k: "fst (?k w') = fst (?k w)"
    "differ_in_text_file (snd (?k w)) (snd (?k w'))"
    by (simp_all add: blind_to_text_file_def)
  let ?m = "main get_text H"
  from blind_main[of get_text H] k(2)
  have m: "fst (?m (snd (?k w'))) = fst (?m (snd (?k w)))"
    "differ_in_text_file (snd (?m (snd (?k w)))) (snd (?m (snd (?k w'))))"
    by (simp_all add: blind_to_text_file_def)
  have p: "fst (print_error e (snd (?m (snd (?k w'))))) = fst (print_error e (snd (?m (snd (?k w)))))"
    "differ_in_text_file (snd (print_error e (snd (?m (snd (?k w)))))) 
       (snd (print_error e (snd (?m (snd (?k w'))))))" for e
    using blind_print_error[of e] m(2) by (simp_all add: blind_to_text_file_def)
  have x: "at_exit c a' = at_exit c a" if "differ_in_text_file a a'" for c a a'
    using that by (simp add: at_exit_def differ_in_text_file_iff)
  show "fst (script get_text H w') = fst (script get_text H w)"
    unfolding script_fst_snd k(1) m(1) p(1)
    by (simp add: x[OF m(2)] x[OF p(2)] split: sum.splits)
  show "differ_in_text_file (snd (script get_text H w)) (snd (script get_text H w'))"
    unfolding script_fst_snd k(1) m(1) p(1)
    by (simp add: m(2) p(2) differ_in_text_file_log[OF k(2)] differ_in_text_file_log[OF p(2)]
        split: sum.splits)
qed

lemma after_outputs_success:
  assumes "fst (set_github_output (py ''changed'')
             (if c then py ''true'' else py ''false'') w) = Inr ()"
    and "fst (set_github_output (py ''url'') URL w) = Inr ()"
    and "fst (set_github_output (py ''content'') block w) = Inr ()"
  shows "after_outputs w (output_entries c block) fs q =
           (if output_path w = Some q
            then Some ((case fs q of None \<Rightarrow> [] | Some old \<Rightarrow> old)
                       @ utf8 (concat (output_entries c block)))
            else fs q)"
proof (cases "output_path w")
  case None
  then show ?thesis by (simp add: after_outputs_off)
next
  case (Some p)
  from after_outputs_done[OF Some assms, of fs] Some show ?thesis
    by (simp add: output_entries_def appended_def)
qed

lemma utf8_nonempty:
  assumes "s \<noteq> []"
  shows "utf8 s \<noteq> []"
  using assms by (cases s) (simp_all add: utf8_def utf8_char_def)

lemma output_entries_nonempty: "utf8 (concat (output_entries c block)) \<noteq> []"
  by (rule utf8_nonempty) (simp add: output_entries_def output_entry_def)

lemma alias_world_fields:
  "refuses alias_world = (\<lambda>_ _. None)"
  "cut_short alias_world = (\<lambda>_ _. None)"
  "stdout_raises alias_world = (\<lambda>_. None)"
  "fst (fetch_html URL alias_world) = Inr sample_html"
  "files alias_world = Map.empty"
  "output_path alias_world = Some TEXT_FILE"
  "flush_fails alias_world = False"
  by (simp_all add: alias_world_def sample_world_def output_path_def fetch_html_def
      raise_for_status_def Let_def TEXT_FILE_def py_def)

lemma left_by_write_same:
  assumes "encode_utf8 c = Inr (utf8 c)" and "cut_short w p (utf8 c) = None"
  shows "left_by_write w p c (Some (utf8 c)) = Some (utf8 c)"
  using assms by (simp add: left_by_write_def split: option.splits)

lemma full_disk_world_fields:
  "refuses full_disk_world Mkdir STATE_DIR = None"
  "fst (fetch_html URL full_disk_world) = Inr sample_html"
  "fst (read_text HASH_FILE full_disk_world) = Inr (Some (py ''0fab''))"
  "previous_digest full_disk_world = Some (py ''0fab'')"
  "fst (write_text HASH_FILE (py ''0fab'') full_disk_world)
     = Inl (OSError (py ''No space left on device''))"
  "left_by_write full_disk_world HASH_FILE (py ''0fab'') old = Some []"
  "files full_disk_world HASH_FILE = Some (utf8 (py ''0fab''))"
  "files full_disk_world TEXT_FILE = Some (utf8 sample_block)"
  "flush_fails full_disk_world = False"
proof -
  have f: "files full_disk_world HASH_FILE = Some (utf8 (hexdigest [15, 171]))"
    "refuses full_disk_world = (\<lambda>_ _. None)"
    by (simp_all add: full_disk_world_def second_run_world_def sample_world_def
        sample_digest_is_hexdigest state_files_distinct)
  show "refuses full_disk_world Mkdir STATE_DIR = None"
    by (simp add: f)
  show "fst (fetch_html URL full_disk_world) = Inr sample_html"
    by (simp add: full_disk_world_def second_run_world_def sample_world_def fetch_html_def
        raise_for_status_def Let_def)
  show "previous_digest full_disk_world = Some (py ''0fab'')"
    using previous_digest_values(2)[OF f(1)] by (simp add: sample_digest_is_hexdigest)
  show "fst (read_text HASH_FILE full_disk_world) = Inr (Some (py ''0fab''))"
    using f read_back_hexdigest[of "[15, 171]"]
    by (auto simp: read_text_def Let_def sample_digest_is_hexdigest split: option.splits)
  have e: "encode_utf8 (py ''0fab'') = Inr (utf8 (py ''0fab''))"
    using hexdigest_encodes[of "[15, 171]"] by (simp add: sample_digest_is_hexdigest)
  show "fst (write_text HASH_FILE (py ''0fab'') full_disk_world)
     = Inl (OSError (py ''No space left on device''))"
    by (simp add: write_text_def Let_def e f(2)) (simp add: full_disk_world_def)
  show "left_by_write full_disk_world HASH_FILE (py ''0fab'') old = Some []"
    by (simp add: left_by_write_def e f(2)) (simp add: full_disk_world_def)
  show "files full_disk_world HASH_FILE = Some (utf8 (py ''0fab''))"
    "files full_disk_world TEXT_FILE = Some (utf8 sample_block)"
    using state_files_distinct
    by (simp_all add: full_disk_world_def second_run_world_def sample_world_def)
  show "flush_fails full_disk_world = False"
    by (simp add: full_disk_world_def second_run_world_def sample_world_def)
qed

lemma alias_second_run_world_fields:
  "refuses alias_second_run_world = (\<lambda>_ _. None)"
  "cut_short alias_second_run_world = (\<lambda>_ _. None)"
  "stdout_raises alias_second_run_world = (\<lambda>_. None)"
  "fst (fetch_html URL alias_second_run_world) = Inr sample_html"
  "files alias_second_run_world HASH_FILE = Some (utf8 (py ''0fab''))"
  "files alias_second_run_world TEXT_FILE = Some (utf8 sample_block)"
  "output_path alias_second_run_world = Some TEXT_FILE"
  "flush_fails alias_second_run_world = False"
  by (simp_all add: alias_second_run_world_def second_run_world_def sample_world_def
      output_path_def fetch_html_def raise_for_status_def Let_def state_files_distinct)
    (simp add: TEXT_FILE_def py_def)



subsection \<open>The result of main\<close>







section \<open>What the extraction returns\<close>

text \<open>
  Claim C1: when the flattened text is \<open>pre @ START_MARKER @ mid @ END_MARKER @ post\<close>,
  with the start marker occurring nowhere earlier and the end marker occurring nowhere
  earlier after it (by \<open>marked_region_exists\<close> every text in which the end marker
  occurs after the start marker has this form), the extraction returns the text
  \<open>mid\<close> between the markers with the spaces and tabs before each line break
  removed, every run of three or more line breaks shortened to two, and then trimmed.
  The block contains no three line breaks in a row, and neither starts nor ends with
  whitespace.
\<close>

theorem extraction_returns_normalized_region:
  assumes "get_text html = Inr (pre @ START_MARKER @ mid @ END_MARKER @ post)"
    and "\<not> sublist START_MARKER (pre @ butlast START_MARKER)"
    and "\<not> sublist END_MARKER (mid @ butlast END_MARKER)"
  shows "extract_current_social_events get_text html = Inr (spec_normalize mid) \<and>
         \<not> sublist [LF, LF, LF] (spec_normalize mid) \<and>
         (spec_normalize mid = [] \<or>
            (\<not> is_space (hd (spec_normalize mid)) \<and> \<not> is_space (last (spec_normalize mid))))"
proof -
  have "extract_current_social_events get_text html = Inr (spec_normalize mid)"
    using extract_success[where get_text = get_text and html = html, OF assms]
    by (simp add: spec_normalize_is_code)
  moreover have "spec_normalize mid = [] \<or>
      (\<not> is_space (hd (spec_normalize mid)) \<and> \<not> is_space (last (spec_normalize mid)))"
    unfolding spec_normalize_def by (rule py_strip_trimmed)
  ultimately show ?thesis
    using spec_normalize_no_triple[of mid] by simp
qed

theorem extraction_returns_normalized_region_witness:
  "sample_get_text sample_html
     = Inr ([] @ START_MARKER
            @ ([LF] @ py ''Concert  '' @ [LF, LF, LF, LF] @ py ''Friday'' @ [LF])
            @ END_MARKER @ []) \<and>
   \<not> sublist START_MARKER ([] @ butlast START_MARKER) \<and>
   \<not> sublist END_MARKER
       (([LF] @ py ''Concert  '' @ [LF, LF, LF, LF] @ py ''Friday'' @ [LF]) @ butlast END_MARKER) \<and>
   extract_current_social_events sample_get_text sample_html
     = Inr (py ''Concert'' @ [LF, LF] @ py ''Friday'') \<and>
   spec_normalize ([LF] @ py ''Concert  '' @ [LF, LF, LF, LF] @ py ''Friday'' @ [LF])
     = py ''Concert'' @ [LF, LF] @ py ''Friday''"
proof -
  let ?mid = "[LF] @ py ''Concert  '' @ [LF, LF, LF, LF] @ py ''Friday'' @ [LF]"
  have t: "sample_get_text sample_html = Inr ([] @ START_MARKER @ ?mid @ END_MARKER @ [])"
    by (simp add: sample_pages sample_flat_def)
  have "find_sub START_MARKER ([] @ butlast START_MARKER) = None"
    by (simp add: START_MARKER_def py_def)
  then have a: "\<not> sublist START_MARKER ([] @ butlast START_MARKER)"
    by (rule iffD1[OF find_sub_None_iff])
  have "find_sub END_MARKER (?mid @ butlast END_MARKER) = None"
    by (simp add: END_MARKER_def py_def)
  then have b: "\<not> sublist END_MARKER (?mid @ butlast END_MARKER)"
    by (rule iffD1[OF find_sub_None_iff])
  from extraction_returns_normalized_region[
      where get_text = sample_get_text and html = sample_html, OF t a b]
  have "extract_current_social_events sample_get_text sample_html = Inr (spec_normalize ?mid)"
    by simp
  with sample_extract have "spec_normalize ?mid = py ''Concert'' @ [LF, LF] @ py ''Friday''"
    by simp
  with t a b sample_extract show ?thesis
    by simp
qed

section \<open>An empty region between the markers\<close>

text \<open>
  Claim C2 says that the extraction fails when the region between the markers is empty
  after trimming. The source has no such check: with the two markers on consecutive
  lines the region is a single line feed, and the extraction returns the empty string.
\<close>

theorem empty_region_counterexample:
  "sample_get_text adjacent_html = Inr (START_MARKER @ [LF] @ END_MARKER) \<and>
   py_strip [LF] = [] \<and>
   extract_current_social_events sample_get_text adjacent_html = Inr []"
  unfolding extract_current_social_events_def sample_pages
  by (simp add: adjacent_flat_def py_contains_def py_index_def py_slice_def
      py_strip_def is_space_def START_MARKER_def END_MARKER_def py_def)

text \<open>
  Claim C2, as the code has it: when the text between the two markers is empty after
  trimming, the extraction does not fail; it returns the empty block.
\<close>

theorem empty_region_returns_empty_block:
  assumes "get_text html = Inr (pre @ START_MARKER @ mid @ END_MARKER @ post)"
    and "\<not> sublist START_MARKER (pre @ butlast START_MARKER)"
    and "\<not> sublist END_MARKER (mid @ butlast END_MARKER)"
    and "py_strip mid = []"
  shows "extract_current_social_events get_text html = Inr []"
proof -
  have "py_strip [] = []"
    by (simp add: py_strip_def)
  with extract_success[where get_text = get_text and html = html, OF assms(1-3)] assms(4)
  show ?thesis by simp
qed

theorem empty_region_returns_empty_block_witness:
  "sample_get_text news_html
     = Inr ((py ''News'' @ [LF]) @ START_MARKER @ [LF] @ END_MARKER @ (LF # py ''Archive'')) \<and>
   \<not> sublist START_MARKER ((py ''News'' @ [LF]) @ butlast START_MARKER) \<and>
   \<not> sublist END_MARKER ([LF] @ butlast END_MARKER) \<and>
   py_strip [LF] = [] \<and>
   extract_current_social_events sample_get_text news_html = Inr []"
proof -
  have t: "sample_get_text news_html
     = Inr ((py ''News'' @ [LF]) @ START_MARKER @ [LF] @ END_MARKER @ (LF # py ''Archive''))"
    by (simp add: sample_pages news_flat_def)
  have a: "\<not> sublist START_MARKER ((py ''News'' @ [LF]) @ butlast START_MARKER)"
    unfolding START_MARKER_def py_def by code_simp
  have b: "\<not> sublist END_MARKER ([LF] @ butlast END_MARKER)"
    unfolding END_MARKER_def py_def by code_simp
  have c: "py_strip [LF] = []"
    by (simp add: py_strip_def is_space_def)
  from empty_region_returns_empty_block[
      where get_text = sample_get_text and html = news_html, OF t a b c] t a b c
  show ?thesis by simp
qed

section \<open>What the run reads\<close>

text \<open>
  Claim C3 says that every run starts with two reads of persisted state, of the digest
  file and of the text file. The source calls \<open>read_text\<close> once, on the digest file,
  and only after the fetch and the extraction; the text file is written but never read.
  In a world where the text file exists, the run does not touch it before overwriting
  it.
\<close>

theorem text_file_is_not_read_counterexample:
  "files stale_text_world TEXT_FILE = Some (utf8 (py ''Old text'')) \<and>
   exit_code sample_get_text sample_digest stale_text_world = 0 \<and>
   filter is_read_event (run_events sample_get_text sample_digest stale_text_world)
     = [EvExists HASH_FILE, EvRead HASH_FILE] \<and>
   EvExists TEXT_FILE \<notin> set (run_events sample_get_text sample_digest stale_text_world) \<and>
   EvRead TEXT_FILE \<notin> set (run_events sample_get_text sample_digest stale_text_world)"
proof -
  note f = stale_text_world_fields
  have "files stale_text_world HASH_FILE = None \<or>
        files stale_text_world HASH_FILE = Some (utf8 (py ''0fab''))"
    by (simp add: f)
  from sample_success(1,2)[OF f(1,2,3,4) this] f state_files_distinct
  show ?thesis
    by (simp add: at_exit_def digest_read_events_def output_events_def output_entries_def)
qed

text \<open>
  Claim C3, as the code has it: the only file a run checks or reads is the digest file.
  A successful run checks it once, reads it once when it exists, and does so after the
  state directory is created and the page is fetched and before the first write.
\<close>

theorem only_the_digest_file_is_read:
  "(\<forall>e \<in> set (run_events get_text H w).
      is_read_event e \<longrightarrow> e = EvExists HASH_FILE \<or> e = EvRead HASH_FILE) \<and>
   (exit_code get_text H w = 0 \<longrightarrow>
      filter is_read_event (run_events get_text H w) =
        EvExists HASH_FILE # (if files w HASH_FILE = None then [] else [EvRead HASH_FILE]) \<and>
      takeWhile (\<lambda>e. \<not> is_write_event e) (run_events get_text H w) =
        [EvMkdir STATE_DIR, EvGet URL, EvExists HASH_FILE]
          @ (if files w HASH_FILE = None then [] else [EvRead HASH_FILE]))"
proof -
  have out: "\<forall>e\<in>set (take k (output_events w c block)). \<not> is_read_event e" for k c block
    using output_events_are_no_reads(2)[of k w c block] by (simp add: filter_empty_conv)
  have out': "\<forall>e\<in>set (output_events w c block). \<not> is_read_event e" for c block
    using output_events_are_no_reads(1)[of w c block] by (simp add: filter_empty_conv)
  show ?thesis
  proof (cases rule: run_cases[where w = w and get_text = get_text and H = H])
    case (mkdir m)
    from run_mkdir_refused[OF this, of get_text H] show ?thesis by simp
  next
    case (fetch e)
    from run_fetch_failed[OF this, of get_text H] show ?thesis
      by (simp add: at_exit_def handler_event_is_no_read)
  next
    case (extraction html e)
    from run_extract_failed[OF this, of H] show ?thesis
      by (simp add: at_exit_def handler_event_is_no_read)
  next
    case (digest html block e)
    from run_digest_failed[OF this] show ?thesis
      by (simp add: at_exit_def handler_event_is_no_read)
  next
    case (read html block h e)
    from run_read_failed[OF this]
      reads_only_on_digest_file[of "[handler_event w e]" w]
    show ?thesis
      by (simp add: at_exit_def handler_event_is_no_read)
  next
    case (write_hash html block h e)
    from run_write_hash_failed[OF this]
      reads_only_on_digest_file[of "[EvWrite HASH_FILE h, handler_event w e]" w]
    show ?thesis
      by (simp add: at_exit_def handler_event_is_no_read)
  next
    case (write_text html block h e)
    from run_write_text_failed[OF this]
      reads_only_on_digest_file[of
        "[EvWrite HASH_FILE h, EvWrite TEXT_FILE block, handler_event w e]" w]
    show ?thesis
      by (simp add: at_exit_def handler_event_is_no_read)
  next
    case (output1 html block h e)
    from run_output1_failed[OF this]
      reads_only_on_digest_file[of
        "[EvWrite HASH_FILE h, EvWrite TEXT_FILE block]
         @ take 1 (output_events w (previous_digest w \<noteq> Some h) block)
         @ [handler_event w e]" w] out
    show ?thesis
      by (simp add: at_exit_def handler_event_is_no_read)
  next
    case (output2 html block h e)
    from run_output2_failed[OF this]
      reads_only_on_digest_file[of
        "[EvWrite HASH_FILE h, EvWrite TEXT_FILE block]
         @ take 2 (output_events w (previous_digest w \<noteq> Some h) block)
         @ [handler_event w e]" w] out
    show ?thesis
      by (simp add: at_exit_def handler_event_is_no_read)
  next
    case (output3 html block h e)
    from run_output3_failed[OF this]
      reads_only_on_digest_file[of
        "[EvWrite HASH_FILE h, EvWrite TEXT_FILE block]
         @ output_events w (previous_digest w \<noteq> Some h) block
         @ [handler_event w e]" w] out'
    show ?thesis
      by (simp add: at_exit_def handler_event_is_no_read)
  next
    case (print html block h e)
    from run_print_failed[OF this]
      reads_only_on_digest_file[of
        "[EvWrite HASH_FILE h, EvWrite TEXT_FILE block]
         @ output_events w (previous_digest w \<noteq> Some h) block
         @ [handler_event w e]" w] out'
    show ?thesis
      by (simp add: at_exit_def handler_event_is_no_read)
  next
    case (success html block h)
    from run_success[OF this]
      reads_only_on_digest_file[of
        "[EvWrite HASH_FILE h, EvWrite TEXT_FILE block]
         @ output_events w (previous_digest w \<noteq> Some h) block
         @ [Print (report_line (previous_digest w \<noteq> Some h))]" w] out'
      read_text_returned_events[OF success(5)]
    show ?thesis
      by (simp add: digest_read_events_are_reads output_events_are_no_reads)
  qed
qed

theorem only_the_digest_file_is_read_witness:
  "exit_code sample_get_text sample_digest sample_world = 0 \<and>
   filter is_read_event (run_events sample_get_text sample_digest sample_world)
     = [EvExists HASH_FILE] \<and>
   takeWhile (\<lambda>e. \<not> is_write_event e) (run_events sample_get_text sample_digest sample_world)
     = [EvMkdir STATE_DIR, EvGet URL, EvExists HASH_FILE]"
proof -
  note f = sample_world_fields
  have "files sample_world HASH_FILE = None \<or>
        files sample_world HASH_FILE = Some (utf8 (py ''0fab''))"
    by (simp add: f)
  from sample_success(1)[OF f(1,2,3,4) this]
  have e: "exit_code sample_get_text sample_digest sample_world = 0"
    by (simp add: at_exit_def f)
  with only_the_digest_file_is_read[of sample_get_text sample_digest sample_world]
  show ?thesis by (simp add: f)
qed

section \<open>When the extraction fails\<close>

text \<open>
  Claim C4 says that the extraction fails with the marker error in three cases: the
  start marker is absent from the flattened text, the end marker is absent, or the end
  marker does not occur after the start marker. The source raises its marker error, a
  \<open>RuntimeError\<close> with the message "Could not find markers", in the first two cases
  only: the guard of line 41 tests whether each marker occurs, not where. In the third
  case the guard passes and \<open>str.index\<close> raises \<open>ValueError\<close> ("substring not
  found") at line 47.

  The theorem gives the error of every failing extraction: the parser's exception when
  the markup is rejected; the marker error exactly when a marker is absent; the
  \<open>ValueError\<close> exactly when both markers occur and the end marker does not occur
  after the first start marker; and no other.
\<close>

theorem extraction_failure_cases:
  "case get_text html of
     Inl e \<Rightarrow> extract_current_social_events get_text html = Inl e
   | Inr t \<Rightarrow>
       (extract_current_social_events get_text html = Inl (RuntimeError markers_message)
          \<longleftrightarrow> \<not> sublist START_MARKER t \<or> \<not> sublist END_MARKER t) \<and>
       (extract_current_social_events get_text html
            = Inl (ValueError (py ''substring not found''))
          \<longleftrightarrow> sublist START_MARKER t \<and> sublist END_MARKER t \<and>
              (\<exists>pre rest. t = pre @ START_MARKER @ rest \<and>
                 \<not> sublist START_MARKER (pre @ butlast START_MARKER) \<and>
                 \<not> sublist END_MARKER rest)) \<and>
       (\<forall>e. extract_current_social_events get_text html = Inl e \<longrightarrow>
          e = RuntimeError markers_message \<or> e = ValueError (py ''substring not found''))"
proof (cases "get_text html")
  case (Inl e)
  with extract_rejected[where get_text = get_text and html = html, OF Inl] show ?thesis
    by simp
next
  case (Inr t)
  have "(extract_current_social_events get_text html = Inl (RuntimeError markers_message)
          \<longleftrightarrow> \<not> sublist START_MARKER t \<or> \<not> sublist END_MARKER t) \<and>
       (extract_current_social_events get_text html
            = Inl (ValueError (py ''substring not found''))
          \<longleftrightarrow> sublist START_MARKER t \<and> sublist END_MARKER t \<and>
              (\<exists>pre rest. t = pre @ START_MARKER @ rest \<and>
                 \<not> sublist START_MARKER (pre @ butlast START_MARKER) \<and>
                 \<not> sublist END_MARKER rest)) \<and>
       (\<forall>e. extract_current_social_events get_text html = Inl e \<longrightarrow>
          e = RuntimeError markers_message \<or> e = ValueError (py ''substring not found''))"
  proof (cases "\<not> sublist START_MARKER t \<or> \<not> sublist END_MARKER t")
    case True
    from extract_absent[where get_text = get_text and html = html, OF Inr True] True
    show ?thesis by auto
  next
    case False
    then have ss: "sublist START_MARKER t" and se: "sublist END_MARKER t"
      by auto
    from first_occurrence_exists[OF ss START_MARKER_nonempty] obtain pre rest where
      d: "t = pre @ START_MARKER @ rest"
         "\<not> sublist START_MARKER (pre @ butlast START_MARKER)"
      by blast
    show ?thesis
    proof (cases "sublist END_MARKER rest")
      case True
      from first_occurrence_exists[OF True END_MARKER_nonempty] obtain mid post where
        m: "rest = mid @ END_MARKER @ post" "\<not> sublist END_MARKER (mid @ butlast END_MARKER)"
        by blast
      have ok: "extract_current_social_events get_text html
                  = Inr (py_strip (re_sub_nl3 (re_sub_hws_nl (py_strip mid))))"
        by (rule extract_success[where get_text = get_text and html = html, OF _ d(2) m(2)])
          (simp add: Inr d(1) m(1))
      have "\<not> (\<exists>pre' rest'. t = pre' @ START_MARKER @ rest' \<and>
               \<not> sublist START_MARKER (pre' @ butlast START_MARKER) \<and>
               \<not> sublist END_MARKER rest')"
      proof
        assume "\<exists>pre' rest'. t = pre' @ START_MARKER @ rest' \<and>
               \<not> sublist START_MARKER (pre' @ butlast START_MARKER) \<and>
               \<not> sublist END_MARKER rest'"
        then obtain pre' rest' where
          d': "t = pre' @ START_MARKER @ rest'"
              "\<not> sublist START_MARKER (pre' @ butlast START_MARKER)"
              "\<not> sublist END_MARKER rest'"
          by blast
        have "pre @ START_MARKER @ rest = pre' @ START_MARKER @ rest'"
          using d(1) d'(1) by simp
        from first_occurrence_unique[OF this d(2) d'(2)] have "rest' = rest" by simp
        with d'(3) True show False by simp
      qed
      with ok False show ?thesis by simp
    next
      case nf: False
      have "extract_current_social_events get_text html
              = Inl (ValueError (py ''substring not found''))"
        by (rule extract_end_not_after[where get_text = get_text and html = html,
              OF _ d(2) _ nf]) (use Inr d(1) se in simp_all)
      moreover have "\<exists>pre rest. t = pre @ START_MARKER @ rest \<and>
               \<not> sublist START_MARKER (pre @ butlast START_MARKER) \<and>
               \<not> sublist END_MARKER rest"
        using d nf by blast
      ultimately show ?thesis using ss se by simp
    qed
  qed
  with Inr show ?thesis by simp
qed

theorem extraction_failure_cases_witness:
  "sample_get_text swapped_html = Inr (END_MARKER @ [LF] @ START_MARKER) \<and>
   sublist START_MARKER (END_MARKER @ [LF] @ START_MARKER) \<and>
   sublist END_MARKER (END_MARKER @ [LF] @ START_MARKER) \<and>
   \<not> sublist START_MARKER ((END_MARKER @ [LF]) @ butlast START_MARKER) \<and>
   \<not> sublist END_MARKER [] \<and>
   extract_current_social_events sample_get_text swapped_html
     = Inl (ValueError (py ''substring not found'')) \<and>
   extract_current_social_events sample_get_text swapped_html
     \<noteq> Inl (RuntimeError markers_message)"
proof -
  let ?t = "END_MARKER @ [LF] @ START_MARKER"
  have t: "sample_get_text swapped_html = Inr ?t"
    by (simp add: sample_pages swapped_flat_def)
  have a: "sublist START_MARKER ?t"
    unfolding START_MARKER_def END_MARKER_def py_def by code_simp
  have b: "sublist END_MARKER ?t"
    unfolding START_MARKER_def END_MARKER_def py_def by code_simp
  have c: "\<not> sublist START_MARKER ((END_MARKER @ [LF]) @ butlast START_MARKER)"
    unfolding START_MARKER_def END_MARKER_def py_def by code_simp
  have d: "\<not> sublist END_MARKER []"
    by (simp add: END_MARKER_nonempty)
  have "\<exists>pre rest. ?t = pre @ START_MARKER @ rest \<and>
          \<not> sublist START_MARKER (pre @ butlast START_MARKER) \<and> \<not> sublist END_MARKER rest"
    using c d by (intro exI[of _ "END_MARKER @ [LF]"] exI[of _ "[]"]) simp
  with a b extraction_failure_cases[where get_text = sample_get_text and html = swapped_html]
  have "extract_current_social_events sample_get_text swapped_html
     = Inl (ValueError (py ''substring not found''))"
    unfolding t by simp
  with t a b c d show ?thesis by simp
qed

section \<open>The first run\<close>

text \<open>
  Claim C5: when the digest file does not exist, the flag \<open>changed\<close> is true. The
  flag shows in what the run emits: no run from such a world prints "No change." or
  sends the output \<open>changed = false\<close>; a successful one ends by printing the line for
  a change and, when an output file is configured, sends \<open>changed = true\<close>.
\<close>

theorem first_run_is_reported_as_changed:
  assumes "files w HASH_FILE = None"
  shows "Print (py ''No change.'') \<notin> set (run_events get_text H w) \<and>
         (\<forall>p. EvAppend p (output_entry (py ''changed'') (py ''false''))
                \<notin> set (run_events get_text H w)) \<and>
         (exit_code get_text H w = 0 \<longrightarrow>
            last (run_events get_text H w)
              = Print (py ''CHANGED: Current social events updated.'') \<and>
            (\<forall>p. output_path w = Some p \<longrightarrow>
               EvAppend p (output_entry (py ''changed'') (py ''true''))
                 \<in> set (run_events get_text H w)))"
proof -
  have pd: "previous_digest w = None"
    using assms by (simp add: previous_digest_def)
  note oc = output_events_content[where w = w and c = True, simplified]
  note facts = at_exit_def handler_event_is_no_report handler_event_is_no_report[symmetric]
    digest_read_events_are_no_reports pd oc
  show ?thesis
  proof (cases rule: run_cases[where w = w and get_text = get_text and H = H])
    case (mkdir m)
    from run_mkdir_refused[OF this, of get_text H] show ?thesis by simp
  next
    case (fetch e)
    from run_fetch_failed[OF this, of get_text H] show ?thesis by (simp add: facts)
  next
    case (extraction html e)
    from run_extract_failed[OF this, of H] show ?thesis by (simp add: facts)
  next
    case (digest html block e)
    from run_digest_failed[OF this] show ?thesis by (simp add: facts)
  next
    case (read html block h e)
    from run_read_failed[OF this] show ?thesis by (simp add: facts)
  next
    case (write_hash html block h e)
    from run_write_hash_failed[OF this] show ?thesis by (simp add: facts)
  next
    case (write_text html block h e)
    from run_write_text_failed[OF this] show ?thesis by (simp add: facts)
  next
    case (output1 html block h e)
    from run_output1_failed[OF this] show ?thesis by (simp add: facts)
  next
    case (output2 html block h e)
    from run_output2_failed[OF this] show ?thesis by (simp add: facts)
  next
    case (output3 html block h e)
    from run_output3_failed[OF this] show ?thesis by (simp add: facts)
  next
    case (print html block h e)
    from run_print_failed[OF this] show ?thesis by (simp add: facts)
  next
    case (success html block h)
    from run_success[OF this] show ?thesis
      by (simp add: facts report_line_def report_lines_distinct[symmetric])
  qed
qed

theorem first_run_is_reported_as_changed_witness:
  "files sample_world HASH_FILE = None \<and>
   exit_code sample_get_text sample_digest sample_world = 0 \<and>
   last (run_events sample_get_text sample_digest sample_world)
     = Print (py ''CHANGED: Current social events updated.'') \<and>
   EvAppend (py ''out.txt'') (output_entry (py ''changed'') (py ''true''))
     \<in> set (run_events sample_get_text sample_digest sample_world)"
proof -
  note f = sample_world_fields
  have n: "files sample_world HASH_FILE = None"
    by (simp add: f)
  then have "files sample_world HASH_FILE = None \<or>
        files sample_world HASH_FILE = Some (utf8 (py ''0fab''))" ..
  from sample_success(1)[OF f(1,2,3,4) this]
  have e: "exit_code sample_get_text sample_digest sample_world = 0"
    by (simp add: at_exit_def f)
  from first_run_is_reported_as_changed[OF n, of sample_get_text sample_digest] e n
  show ?thesis by (simp add: f)
qed

section \<open>The state written by a successful run\<close>

text \<open>
  Claim C6 says that after every successful run the digest file holds the digest and
  the text file the block. The source appends the three outputs to the file that
  \<open>GITHUB_OUTPUT\<close> names, after the two writes, and nothing keeps that name apart
  from the state files: when it names the text file, a successful first run leaves the
  block followed by the three output entries there.
\<close>

theorem output_file_among_state_files_counterexample:
  "output_path alias_world = Some TEXT_FILE \<and>
   exit_code sample_get_text sample_digest alias_world = 0 \<and>
   final_files sample_get_text sample_digest alias_world TEXT_FILE
     = Some (utf8 sample_block @ utf8 (concat (output_entries True sample_block))) \<and>
   final_files sample_get_text sample_digest alias_world TEXT_FILE \<noteq> Some (utf8 sample_block)"
proof -
  note f = alias_world_fields
  have n: "files alias_world HASH_FILE = None \<or>
        files alias_world HASH_FILE = Some (utf8 (py ''0fab''))"
    by (simp add: f)
  note s = sample_success[OF f(1,2,3,4) n]
  have p: "previous_digest alias_world = None"
    by (simp add: previous_digest_def f)
  have "final_files sample_get_text sample_digest alias_world TEXT_FILE
     = Some (utf8 sample_block @ utf8 (concat (output_entries True sample_block)))"
    using s(4,5,6) unfolding s(3) p
    by (simp add: after_outputs_success state_written_def f)
  with s(1) f(6,7) output_entries_nonempty[of True sample_block] show ?thesis
    by (simp add: at_exit_def)
qed

text \<open>
  Claim C6, as the code has it: every successful run, whatever the comparison gave,
  writes exactly twice: the digest file receives the lowercase hexadecimal digest of the
  UTF-8 encoding of the block extracted from the fetched page, the text file receives
  that block. After the run each of the two files holds what was written to it, in
  UTF-8, followed by the three output entries when it is also the output file.
\<close>

theorem state_files_overwritten_on_success:
  assumes "exit_code get_text H w = 0"
  shows "\<exists>html block.
           fst (fetch_html URL w) = Inr html \<and>
           extract_current_social_events get_text html = Inr block \<and>
           encode_utf8 block = Inr (utf8 block) \<and>
           filter is_write_event (run_events get_text H w)
             = [EvWrite HASH_FILE (hexdigest (H (utf8 block))), EvWrite TEXT_FILE block] \<and>
           final_files get_text H w HASH_FILE
             = Some (utf8 (hexdigest (H (utf8 block))) @
                     (if output_path w = Some HASH_FILE
                      then utf8 (concat (output_entries
                             (previous_digest w \<noteq> Some (hexdigest (H (utf8 block)))) block))
                      else [])) \<and>
           final_files get_text H w TEXT_FILE
             = Some (utf8 block @
                     (if output_path w = Some TEXT_FILE
                      then utf8 (concat (output_entries
                             (previous_digest w \<noteq> Some (hexdigest (H (utf8 block)))) block))
                      else [])) \<and>
           length (hexdigest (H (utf8 block))) = 2 * length (H (utf8 block)) \<and>
           set (hexdigest (H (utf8 block))) \<subseteq> set (py ''0123456789abcdef'')"
proof (cases rule: run_cases[where w = w and get_text = get_text and H = H])
  case (mkdir m)
  from run_mkdir_refused(1)[OF this, of get_text H] assms show ?thesis by simp
next
  case (fetch e)
  from run_fetch_failed(1)[OF this, of get_text H] assms show ?thesis
    by (simp add: at_exit_def split: if_splits)
next
  case (extraction html e)
  from run_extract_failed(1)[OF this, of H] assms show ?thesis
    by (simp add: at_exit_def split: if_splits)
next
  case (digest html block e)
  from run_digest_failed(1)[OF this] assms show ?thesis
    by (simp add: at_exit_def split: if_splits)
next
  case (read html block h e)
  from run_read_failed(1)[OF this] assms show ?thesis
    by (simp add: at_exit_def split: if_splits)
next
  case (write_hash html block h e)
  from run_write_hash_failed(1)[OF this] assms show ?thesis
    by (simp add: at_exit_def split: if_splits)
next
  case (write_text html block h e)
  from run_write_text_failed(1)[OF this] assms show ?thesis
    by (simp add: at_exit_def split: if_splits)
next
  case (output1 html block h e)
  from run_output1_failed(1)[OF this] assms show ?thesis
    by (simp add: at_exit_def split: if_splits)
next
  case (output2 html block h e)
  from run_output2_failed(1)[OF this] assms show ?thesis
    by (simp add: at_exit_def split: if_splits)
next
  case (output3 html block h e)
  from run_output3_failed(1)[OF this] assms show ?thesis
    by (simp add: at_exit_def split: if_splits)
next
  case (print html block h e)
  from run_print_failed(1)[OF this] assms show ?thesis
    by (simp add: at_exit_def split: if_splits)
next
  case (success html block h)
  note d = sha256_is_hexdigest[OF success(4)]
  note r = run_success[OF success]
  have "filter is_write_event (run_events get_text H w)
          = [EvWrite HASH_FILE h, EvWrite TEXT_FILE block]"
    unfolding r(2) by (simp add: no_write_in_reads no_write_in_outputs)
  moreover have "final_files get_text H w HASH_FILE
      = Some (utf8 h @ (if output_path w = Some HASH_FILE
                        then utf8 (concat (output_entries (previous_digest w \<noteq> Some h) block))
                        else []))"
    unfolding r(3) using state_files_distinct
    by (simp add: after_outputs_success[OF success(8,9,10)] state_written_def)
  moreover have "final_files get_text H w TEXT_FILE
      = Some (utf8 block @ (if output_path w = Some TEXT_FILE
                        then utf8 (concat (output_entries (previous_digest w \<noteq> Some h) block))
                        else []))"
    unfolding r(3) using state_files_distinct
    by (simp add: after_outputs_success[OF success(8,9,10)] state_written_def)
  ultimately show ?thesis
    using success(2,3) d(1) hexdigest_length[of "H (utf8 block)"]
      hexdigest_alphabet[of "H (utf8 block)"]
    unfolding d(2)
    by (intro exI[of _ html] exI[of _ block]) simp
qed

theorem state_files_overwritten_on_success_witness:
  "exit_code sample_get_text sample_digest sample_world = 0 \<and>
   filter is_write_event (run_events sample_get_text sample_digest sample_world)
     = [EvWrite HASH_FILE (py ''0fab''), EvWrite TEXT_FILE sample_block] \<and>
   final_files sample_get_text sample_digest sample_world HASH_FILE
     = Some (utf8 (py ''0fab'')) \<and>
   final_files sample_get_text sample_digest sample_world TEXT_FILE
     = Some (utf8 sample_block)"
proof -
  note f = sample_world_fields
  have "files sample_world HASH_FILE = None \<or>
        files sample_world HASH_FILE = Some (utf8 (py ''0fab''))"
    by (simp add: f)
  from sample_success(1)[OF f(1,2,3,4) this]
  have e: "exit_code sample_get_text sample_digest sample_world = 0"
    by (simp add: at_exit_def f)
  from state_files_overwritten_on_success[OF e] obtain html block where
    r: "fst (fetch_html URL sample_world) = Inr html"
       "extract_current_social_events sample_get_text html = Inr block"
       "filter is_write_event (run_events sample_get_text sample_digest sample_world)
          = [EvWrite HASH_FILE (hexdigest (sample_digest (utf8 block))), EvWrite TEXT_FILE block]"
       "final_files sample_get_text sample_digest sample_world HASH_FILE
          = Some (utf8 (hexdigest (sample_digest (utf8 block))) @
                     (if output_path sample_world = Some HASH_FILE
                      then utf8 (concat (output_entries
                             (previous_digest sample_world
                                \<noteq> Some (hexdigest (sample_digest (utf8 block)))) block))
                      else []))"
       "final_files sample_get_text sample_digest sample_world TEXT_FILE
          = Some (utf8 block @
                     (if output_path sample_world = Some TEXT_FILE
                      then utf8 (concat (output_entries
                             (previous_digest sample_world
                                \<noteq> Some (hexdigest (sample_digest (utf8 block)))) block))
                      else []))"
    by blast
  from r(1) f(4) have "html = sample_html" by simp
  with r(2) sample_extract have b: "block = sample_block" by (simp add: sample_block_def)
  have "sha256 sample_digest sample_block = Inr (py ''0fab'')"
    using sample_sha256 by (simp add: sample_block_def)
  from sha256_is_hexdigest(2)[OF this]
  have h: "hexdigest (sample_digest (utf8 sample_block)) = py ''0fab''" by simp
  from r(3,4,5) e show ?thesis
    unfolding b h by (simp add: f out_txt_is_no_state_file)
qed

section \<open>A run on an unchanged block\<close>

text \<open>
  Claim C7 says that a run on an unchanged block leaves both state files as they were.
  \<open>Path.write_text\<close> empties the file when it opens it: a write that fails after
  that (here: no space is left on the device) leaves the digest file empty. And when
  \<open>GITHUB_OUTPUT\<close> names the text file, a successful run leaves the three output
  entries after the block.
\<close>

theorem state_files_changed_counterexample:
  "files full_disk_world HASH_FILE = Some (utf8 (py ''0fab'')) \<and>
   files full_disk_world TEXT_FILE = Some (utf8 sample_block) \<and>
   fst (fetch_html URL full_disk_world) = Inr sample_html \<and>
   extract_current_social_events sample_get_text sample_html = Inr sample_block \<and>
   sha256 sample_digest sample_block = Inr (py ''0fab'') \<and>
   exit_code sample_get_text sample_digest full_disk_world = 1 \<and>
   final_files sample_get_text sample_digest full_disk_world HASH_FILE = Some [] \<and>
   files alias_second_run_world HASH_FILE = Some (utf8 (py ''0fab'')) \<and>
   files alias_second_run_world TEXT_FILE = Some (utf8 sample_block) \<and>
   fst (fetch_html URL alias_second_run_world) = Inr sample_html \<and>
   exit_code sample_get_text sample_digest alias_second_run_world = 0 \<and>
   final_files sample_get_text sample_digest alias_second_run_world TEXT_FILE
     = Some (utf8 sample_block @ utf8 (concat (output_entries False sample_block)))"
proof -
  have x: "extract_current_social_events sample_get_text sample_html = Inr sample_block"
    using sample_extract by (simp add: sample_block_def)
  have d: "sha256 sample_digest sample_block = Inr (py ''0fab'')"
    using sample_sha256 by (simp add: sample_block_def)
  note f = full_disk_world_fields
  have rd: "fst (read_text HASH_FILE full_disk_world) = Inr (previous_digest full_disk_world)"
    by (simp add: f)
  note r = run_write_hash_failed[OF f(1) f(2) x d rd f(5)]
  have a: "exit_code sample_get_text sample_digest full_disk_world = 1"
    "final_files sample_get_text sample_digest full_disk_world HASH_FILE = Some []"
    using r(1,3) by (simp_all add: at_exit_def f)
  note g = alias_second_run_world_fields
  have n: "files alias_second_run_world HASH_FILE = None \<or>
        files alias_second_run_world HASH_FILE = Some (utf8 (py ''0fab''))"
    by (simp add: g)
  note s = sample_success[OF g(1,2,3,4) n]
  have p: "previous_digest alias_second_run_world = Some (py ''0fab'')"
    using previous_digest_values(2)[of alias_second_run_world "[15, 171]"] g(5)
    by (simp add: sample_digest_is_hexdigest)
  have "final_files sample_get_text sample_digest alias_second_run_world TEXT_FILE
     = Some (utf8 sample_block @ utf8 (concat (output_entries False sample_block)))"
    using s(4,5,6) unfolding s(3) p
    by (simp add: after_outputs_success state_written_def g)
  moreover have "exit_code sample_get_text sample_digest alias_second_run_world = 0"
    using s(1) by (simp add: at_exit_def g)
  ultimately show ?thesis
    using a x d f(2,7,8) g(4,5,6) by simp
qed

text \<open>
  Claim C7, as the code has it: when the state files hold the digest and the block that
  a successful run wrote, and the page yields the same block again, then \<open>changed\<close>
  is false (the run never reports a change, and a successful one prints "No change." and
  sends \<open>changed = false\<close>). A state file holds after the run what it held before,
  unless the write to it is cut short after the file was opened, or it is also the
  output file.
\<close>

theorem unchanged_block_leaves_state_unchanged:
  assumes "fst (fetch_html URL w) = Inr html"
    and "extract_current_social_events get_text html = Inr block"
    and "sha256 H block = Inr h"
    and "files w HASH_FILE = Some (utf8 h)"
    and "files w TEXT_FILE = Some (utf8 block)"
  shows "Print (py ''CHANGED: Current social events updated.'') \<notin> set (run_events get_text H w) \<and>
         (\<forall>p. EvAppend p (output_entry (py ''changed'') (py ''true''))
                \<notin> set (run_events get_text H w)) \<and>
         (exit_code get_text H w = 0 \<longrightarrow>
            last (run_events get_text H w) = Print (py ''No change.'') \<and>
            (\<forall>p. output_path w = Some p \<longrightarrow>
               EvAppend p (output_entry (py ''changed'') (py ''false''))
                 \<in> set (run_events get_text H w))) \<and>
         (cut_short w HASH_FILE (utf8 h) = None \<and> output_path w \<noteq> Some HASH_FILE \<longrightarrow>
            final_files get_text H w HASH_FILE = files w HASH_FILE) \<and>
         (cut_short w TEXT_FILE (utf8 block) = None \<and> output_path w \<noteq> Some TEXT_FILE \<longrightarrow>
            final_files get_text H w TEXT_FILE = files w TEXT_FILE)"
proof -
  note d = sha256_is_hexdigest[OF assms(3)]
  have pd: "previous_digest w = Some h"
    using previous_digest_values(2)[of w "H (utf8 block)"] assms(4) d(2) by simp
  have eh: "encode_utf8 h = Inr (utf8 h)"
    unfolding d(2) by (rule hexdigest_encodes)
  note same = left_by_write_same[OF eh] left_by_write_same[OF d(1)]
  note oc = output_events_content[where w = w and c = False, simplified]
  note facts = at_exit_def handler_event_is_no_report handler_event_is_no_report[symmetric]
    digest_read_events_are_no_reports pd oc assms(4,5) same state_files_distinct
    state_files_distinct[symmetric] after_outputs_elsewhere state_written_def
  show ?thesis
  proof (cases rule: run_cases[where w = w and get_text = get_text and H = H])
    case (mkdir m)
    from run_mkdir_refused[OF this, of get_text H] show ?thesis by simp
  next
    case (fetch e)
    with assms(1) show ?thesis by simp
  next
    case (extraction html' e)
    with assms(1,2) show ?thesis by simp
  next
    case (digest html' block' e)
    with assms(1,2,3) show ?thesis by simp
  next
    case (read html' block' h' e)
    from run_read_failed[OF this] show ?thesis by (simp add: facts)
  next
    case (write_hash html' block' h' e)
    then have eq: "h' = h" "block' = block" using assms(1,2,3) by simp_all
    from run_write_hash_failed[OF write_hash] show ?thesis
      unfolding eq by (simp add: facts)
  next
    case (write_text html' block' h' e)
    then have eq: "h' = h" "block' = block" using assms(1,2,3) by simp_all
    from run_write_text_failed[OF write_text] show ?thesis
      unfolding eq by (simp add: facts)
  next
    case (output1 html' block' h' e)
    then have eq: "h' = h" "block' = block" using assms(1,2,3) by simp_all
    from run_output1_failed[OF output1] show ?thesis
      unfolding eq by (simp add: facts)
  next
    case (output2 html' block' h' e)
    then have eq: "h' = h" "block' = block" using assms(1,2,3) by simp_all
    from run_output2_failed[OF output2] show ?thesis
      unfolding eq by (simp add: facts)
  next
    case (output3 html' block' h' e)
    then have eq: "h' = h" "block' = block" using assms(1,2,3) by simp_all
    from run_output3_failed[OF output3] show ?thesis
      unfolding eq by (simp add: facts)
  next
    case (print html' block' h' e)
    then have eq: "h' = h" "block' = block" using assms(1,2,3) by simp_all
    from run_print_failed[OF print] show ?thesis
      unfolding eq by (simp add: facts)
  next
    case (success html' block' h')
    then have eq: "h' = h" "block' = block" using assms(1,2,3) by simp_all
    from run_success[OF success] show ?thesis
      unfolding eq by (simp add: facts report_line_def report_lines_distinct)
  qed
qed

theorem unchanged_block_leaves_state_unchanged_witness:
  "fst (fetch_html URL second_run_world) = Inr sample_html \<and>
   extract_current_social_events sample_get_text sample_html = Inr sample_block \<and>
   sha256 sample_digest sample_block = Inr (py ''0fab'') \<and>
   files second_run_world HASH_FILE = Some (utf8 (py ''0fab'')) \<and>
   files second_run_world TEXT_FILE = Some (utf8 sample_block) \<and>
   cut_short second_run_world HASH_FILE (utf8 (py ''0fab'')) = None \<and>
   cut_short second_run_world TEXT_FILE (utf8 sample_block) = None \<and>
   output_path second_run_world = Some (py ''out.txt'') \<and>
   exit_code sample_get_text sample_digest second_run_world = 0 \<and>
   final_files sample_get_text sample_digest second_run_world HASH_FILE
     = Some (utf8 (py ''0fab'')) \<and>
   final_files sample_get_text sample_digest second_run_world TEXT_FILE
     = Some (utf8 sample_block) \<and>
   last (run_events sample_get_text sample_digest second_run_world) = Print (py ''No change.'') \<and>
   EvAppend (py ''out.txt'') (output_entry (py ''changed'') (py ''false''))
     \<in> set (run_events sample_get_text sample_digest second_run_world)"
proof -
  note f = second_run_world_fields
  have x: "extract_current_social_events sample_get_text sample_html = Inr sample_block"
    using sample_extract by (simp add: sample_block_def)
  have d: "sha256 sample_digest sample_block = Inr (py ''0fab'')"
    using sample_sha256 by (simp add: sample_block_def)
  have "files second_run_world HASH_FILE = None \<or>
        files second_run_world HASH_FILE = Some (utf8 (py ''0fab''))"
    by (simp add: f(8))
  from sample_success(1)[OF f(1,2,3,4) this]
  have e: "exit_code sample_get_text sample_digest second_run_world = 0"
    by (simp add: at_exit_def f)
  from unchanged_block_leaves_state_unchanged[OF f(4) x d f(8) f(9)] e x d f(4,6,8,9)
  show ?thesis
    by (simp add: f(2) out_txt_is_no_state_file out_txt_is_no_state_file[symmetric]
        state_files_distinct)
qed

section \<open>Failures before the write stage\<close>




section \<open>Exit codes and the report of a failure\<close>




section \<open>The text file does not influence a run\<close>

text \<open>
  Claim C10: two runs that differ only in what the text file holds beforehand (any
  content, or no file) have the same exit code and the same events in the same order
  (so the same lines printed and the same three outputs sent), and they leave the same
  content in every file but the text file.
\<close>

theorem outputs_independent_of_text_file:
  "exit_code get_text H (w\<lparr>files := (files w)(TEXT_FILE := v)\<rparr>) = exit_code get_text H w \<and>
   run_events get_text H (w\<lparr>files := (files w)(TEXT_FILE := v)\<rparr>) = run_events get_text H w \<and>
   (final_files get_text H (w\<lparr>files := (files w)(TEXT_FILE := v)\<rparr>))(TEXT_FILE := None)
     = (final_files get_text H w)(TEXT_FILE := None)"
proof -
  let ?w = "w\<lparr>files := (files w)(TEXT_FILE := v)\<rparr>"
  have d: "differ_in_text_file w ?w"
    by (simp add: differ_in_text_file_def)
  note s = script_is_blind[OF d, of get_text H]
  from s(2) have t: "trace (snd (script get_text H ?w)) = trace (snd (script get_text H w))"
    and f: "\<forall>p. p \<noteq> TEXT_FILE \<longrightarrow>
              files (snd (script get_text H ?w)) p = files (snd (script get_text H w)) p"
    by (simp_all add: differ_in_text_file_iff)
  from f have "(files (snd (script get_text H ?w)))(TEXT_FILE := None)
                 = (files (snd (script get_text H w)))(TEXT_FILE := None)"
    by (auto simp: fun_eq_iff)
  with s(1) t show ?thesis
    by (simp add: exit_code_def run_events_def final_files_def)
qed

end
